(* ===== verification/Prelude.thy ===== *)
theory Prelude
  imports Complex_Main "HOL-Library.Word" "HOL-Library.Signed_Division"
begin

unbundle bit_operations_syntax

text \<open>
  Shared vocabulary of the development: machine integer types, the result of a C
  computation (\<open>comp\<close>: it returns, it performs an undefined access, or it has not
  returned under the given schedule of system calls), bounds-checked buffer access,
  unsigned \<^verbatim>\<open>size_t\<close> subtraction and conversion to a 32-bit \<^verbatim>\<open>int\<close>, C strings
  in byte buffers, and the generic lemmas the components share.
\<close>

named_theorems comp_simps "evaluation of C computations"
named_theorems buf_simps "bounds-checked buffer access"

section \<open>Machine types\<close>

type_synonym byte = "8 word"
type_synonym u32 = "32 word"

definition size_t_sub :: "nat \<Rightarrow> nat \<Rightarrow> nat" where
  "size_t_sub a b = (if b \<le> a then a - b else 2 ^ 64 + a - b)"

lemma size_t_sub_le [simp]: "b \<le> a \<Longrightarrow> size_t_sub a b = a - b"
  by (simp add: size_t_sub_def)

definition to_int32 :: "int \<Rightarrow> int" where
  "to_int32 x = (x + 2 ^ 31) mod 2 ^ 32 - 2 ^ 31"

lemma to_int32_range: "- (2 ^ 31) \<le> to_int32 x \<and> to_int32 x < 2 ^ 31"
proof -
  have "0 \<le> (x + 2 ^ 31) mod 2 ^ 32" and "(x + 2 ^ 31) mod 2 ^ 32 < (2 ^ 32 :: int)"
    by simp_all
  then show ?thesis unfolding to_int32_def by simp
qed

lemma to_int32_id: "- 2147483648 \<le> x \<Longrightarrow> x < 2147483648 \<Longrightarrow> to_int32 x = x"
  by (simp add: to_int32_def)

section \<open>C computations\<close>

datatype 'a comp = Done 'a | Fault | Blocked

fun cbind :: "'a comp \<Rightarrow> ('a \<Rightarrow> 'b comp) \<Rightarrow> 'b comp" where
  "cbind (Done x) f = f x"
| "cbind Fault f = Fault"
| "cbind Blocked f = Blocked"

fun cmap :: "('a \<Rightarrow> 'b) \<Rightarrow> 'a comp \<Rightarrow> 'b comp" where
  "cmap f (Done x) = Done (f x)"
| "cmap f Fault = Fault"
| "cmap f Blocked = Blocked"

lemma cbind_Done_iff [comp_simps]:
  "cbind m f = Done y \<longleftrightarrow> (\<exists>x. m = Done x \<and> f x = Done y)"
  by (cases m) auto

lemma cmap_Done_iff [comp_simps]: "cmap f m = Done y \<longleftrightarrow> (\<exists>x. m = Done x \<and> y = f x)"
  by (cases m) auto

lemma cbind_Fault_iff [comp_simps]:
  "cbind m f = Fault \<longleftrightarrow> m = Fault \<or> (\<exists>x. m = Done x \<and> f x = Fault)"
  by (cases m) auto

lemma cmap_Fault_iff [comp_simps]: "cmap f m = Fault \<longleftrightarrow> m = Fault"
  by (cases m) auto

lemma cbind_cong [fundef_cong]:
  "m = n \<Longrightarrow> (\<And>x. n = Done x \<Longrightarrow> f x = g x) \<Longrightarrow> cbind m f = cbind n g"
  by (cases n) auto

text \<open>
  A handler of the program runs on the whole state and may also end the process: \<open>Exited\<close>
  carries the exit status and the state at that moment.
\<close>

datatype 's run = Running 's | Exited int 's | Crashed | Waiting

fun rbind :: "'s run \<Rightarrow> ('s \<Rightarrow> 's run) \<Rightarrow> 's run" where
  "rbind (Running s) f = f s"
| "rbind (Exited c s) f = Exited c s"
| "rbind Crashed f = Crashed"
| "rbind Waiting f = Waiting"

fun run_of_comp :: "'s comp \<Rightarrow> 's run" where
  "run_of_comp (Done s) = Running s"
| "run_of_comp Fault = Crashed"
| "run_of_comp Blocked = Waiting"

lemma rbind_Running_iff [comp_simps]:
  "rbind m f = Running t \<longleftrightarrow> (\<exists>s. m = Running s \<and> f s = Running t)"
  by (cases m) auto

lemma run_of_comp_iff [comp_simps]:
  "run_of_comp m = Running s \<longleftrightarrow> m = Done s" "run_of_comp m = Crashed \<longleftrightarrow> m = Fault"
  "run_of_comp m \<noteq> Exited c t"
  by (cases m; simp)+

lemma rbind_cong [fundef_cong]:
  "m = n \<Longrightarrow> (\<And>s. n = Running s \<Longrightarrow> f s = g s) \<Longrightarrow> rbind m f = rbind n g"
  by (cases n) auto

text \<open>
  What holds when a handler is done: \<open>P\<close> if it returns, \<open>X\<close> if it ends the process;
  it does not crash.
\<close>

fun run_all :: "('s \<Rightarrow> bool) \<Rightarrow> (int \<Rightarrow> 's \<Rightarrow> bool) \<Rightarrow> 's run \<Rightarrow> bool" where
  "run_all P X (Running s) = P s"
| "run_all P X (Exited c s) = X c s"
| "run_all P X Crashed = False"
| "run_all P X Waiting = True"

lemma run_all_rbind:
  "run_all P X m \<Longrightarrow> (\<And>s. P s \<Longrightarrow> run_all Q X (f s)) \<Longrightarrow> run_all Q X (rbind m f)"
  by (cases m) auto

lemma run_all_mono:
  "run_all P X m \<Longrightarrow> (\<And>s. P s \<Longrightarrow> Q s) \<Longrightarrow> (\<And>c s. X c s \<Longrightarrow> Y c s) \<Longrightarrow> run_all Q Y m"
  by (cases m) auto

lemma rbind_Running [simp]: "rbind m Running = m"
  by (cases m) auto

lemma rbind_assoc [simp]: "rbind (rbind m f) g = rbind m (\<lambda>s. rbind (f s) g)"
  by (cases m) auto

lemma cbind_assoc [simp]: "cbind (cbind m f) g = cbind m (\<lambda>x. cbind (f x) g)"
  by (cases m) auto

section \<open>Buffers\<close>

definition buf_write :: "'a list \<Rightarrow> nat \<Rightarrow> 'a \<Rightarrow> 'a list comp" where
  "buf_write b i x = (if i < length b then Done (b[i := x]) else Fault)"

definition buf_read :: "'a list \<Rightarrow> nat \<Rightarrow> nat \<Rightarrow> 'a list comp" where
  "buf_read b off n = (if off + n \<le> length b then Done (take n (drop off b)) else Fault)"

lemma buf_write_Done [buf_simps]: "i < length b \<Longrightarrow> buf_write b i x = Done (b[i := x])"
  by (simp add: buf_write_def)

lemma buf_read_Done [buf_simps]:
  "off + n \<le> length b \<Longrightarrow> buf_read b off n = Done (take n (drop off b))"
  by (simp add: buf_read_def)

lemma buf_write_length: "buf_write b i x = Done b' \<Longrightarrow> length b' = length b"
  by (auto simp: buf_write_def split: if_splits)

section \<open>C strings in byte buffers\<close>

text \<open>The string a \<^verbatim>\<open>char *\<close> denotes: the bytes before the first NUL.\<close>

definition cstr :: "byte list \<Rightarrow> byte list" where
  "cstr b = takeWhile (\<lambda>x. x \<noteq> 0) b"

definition strlen :: "byte list \<Rightarrow> nat" where
  "strlen b = length (cstr b)"

lemma cstr_append_NUL: "0 \<notin> set xs \<Longrightarrow> cstr (xs @ 0 # ys) = xs"
  unfolding cstr_def by (subst takeWhile_append2) auto

lemma cstr_no_NUL: "0 \<notin> set (cstr h)"
  by (auto simp: cstr_def dest: set_takeWhileD)

lemma cstr_cstr_NUL [simp]: "cstr (cstr h @ 0 # ys) = cstr h"
  using cstr_no_NUL by (rule cstr_append_NUL)

lemma cstr_take: "n < length b \<Longrightarrow> b ! n = 0 \<Longrightarrow> cstr b = cstr (take n b)"
proof -
  assume "n < length b" "b ! n = 0"
  then have "b = take n b @ 0 # drop (Suc n) b" using id_take_nth_drop [of n b] by simp
  moreover have "cstr (xs @ 0 # ys) = cstr xs" for xs ys :: "byte list"
    by (induction xs) (simp_all add: cstr_def)
  ultimately show ?thesis by metis
qed

lemma strlen_append_NUL: "0 \<notin> set xs \<Longrightarrow> strlen (xs @ 0 # ys) = length xs"
  by (simp add: strlen_def cstr_append_NUL)

lemma list_update_append_at: "n = length xs \<Longrightarrow> (xs @ y # ys)[n := z] = xs @ z # ys"
  by simp

lemma nat_mod_less_self: "(a :: nat) mod Suc n \<le> n"
  by (simp add: less_Suc_eq_le [symmetric])

end
