(* ===== verification/Strings.thy ===== *)
theory Strings
  imports Prelude
begin

text \<open>
  C strings as the program uses them, with the parts of the standard library it calls:
  \<^verbatim>\<open>strcmp\<close>, \<^verbatim>\<open>strchr\<close>, \<^verbatim>\<open>strtoul\<close> and \<^verbatim>\<open>strtol\<close>, the conversions of
  \<^verbatim>\<open>printf\<close>, and \<open>lenient_strcmp\<close> of \<^verbatim>\<open>src/strcmp.h\<close>. A string is the list of its
  characters before the terminator; a pointer that may be null is an option.
\<close>

section \<open>Comparison\<close>

fun strcmp :: "string \<Rightarrow> string \<Rightarrow> int" where
  "strcmp [] [] = 0"
| "strcmp [] (y # ys) = - of_char y"
| "strcmp (x # xs) [] = of_char x"
| "strcmp (x # xs) (y # ys) =
     (if x = y then strcmp xs ys else of_char x - of_char y)"

definition lenient_strcmp :: "string option \<Rightarrow> string option \<Rightarrow> int" where
  "lenient_strcmp a b =
     (if a = b then 0
      else case a of None \<Rightarrow> - 1 | Some x \<Rightarrow> (case b of None \<Rightarrow> 1 | Some y \<Rightarrow> strcmp x y))"

text \<open>Strings without an embedded terminator.\<close>

definition c_string :: "string \<Rightarrow> bool" where
  "c_string s \<longleftrightarrow> CHR 0x00 \<notin> set s"

lemma of_char_int_eq_iff [simp]: "(of_char x :: int) = of_char y \<longleftrightarrow> x = y"
  by (simp add: of_char_eq_iff)

lemma of_char_int_0 [simp]: "(of_char x :: int) = 0 \<longleftrightarrow> x = CHR 0x00"
  using of_char_int_eq_iff [of x "CHR 0x00"] by simp

lemma strcmp_zero_iff: "c_string a \<Longrightarrow> c_string b \<Longrightarrow> strcmp a b = 0 \<longleftrightarrow> a = b"
  by (induction a b rule: strcmp.induct) (auto simp: c_string_def)

lemma strcmp_antisym: "strcmp b a = - strcmp a b"
  by (induction a b rule: strcmp.induct) auto

lemma of_char_int_nonneg [simp]: "0 \<le> (of_char x :: int)"
  by (metis of_nat_of_char of_nat_0_le_iff)

section \<open>Searching\<close>

text \<open>\<^verbatim>\<open>strchr\<close> as the two pieces around the first occurrence.\<close>

fun split_at :: "char \<Rightarrow> string \<Rightarrow> (string \<times> string) option" where
  "split_at c [] = None"
| "split_at c (x # xs) =
     (if x = c then Some ([], xs)
      else case split_at c xs of None \<Rightarrow> None | Some (a, b) \<Rightarrow> Some (x # a, b))"

lemma split_at_append: "c \<notin> set a \<Longrightarrow> split_at c (a @ c # b) = Some (a, b)"
  by (induction a) auto

lemma split_at_Some: "split_at c s = Some (a, b) \<Longrightarrow> s = a @ c # b \<and> c \<notin> set a"
  by (induction s arbitrary: a) (auto split: if_splits option.splits)

lemma split_at_None: "split_at c s = None \<longleftrightarrow> c \<notin> set s"
  by (induction s) (auto split: option.splits)

section \<open>Numbers\<close>

definition isspace :: "char \<Rightarrow> bool" where
  "isspace c \<longleftrightarrow> c \<in> {CHR '' '', CHR 0x09, CHR 0x0A, CHR 0x0B, CHR 0x0C, CHR 0x0D}"

definition digit_value :: "char \<Rightarrow> nat" where
  "digit_value c =
     (let n = of_char c :: nat in
      if 48 \<le> n \<and> n \<le> 57 then n - 48
      else if 65 \<le> n \<and> n \<le> 90 then n - 55
      else if 97 \<le> n \<and> n \<le> 122 then n - 87 else 36)"

definition digits_value :: "nat \<Rightarrow> string \<Rightarrow> nat" where
  "digits_value base s = foldl (\<lambda>n c. n * base + digit_value c) 0 s"

text \<open>
  The common scanner: white space, a sign, the prefix of base 16, digits. The result is
  \<open>None\<close> when there are no digits, otherwise the sign and the magnitude.
\<close>

definition scan_sign :: "string \<Rightarrow> bool \<times> string" where
  "scan_sign s = (case s of c # r \<Rightarrow> (if c = CHR ''-'' then (True, r)
     else if c = CHR ''+'' then (False, r) else (False, s)) | [] \<Rightarrow> (False, s))"

definition scan_prefix :: "nat \<Rightarrow> string \<Rightarrow> string" where
  "scan_prefix base s =
     (case s of z # x # d # r \<Rightarrow>
        (if base = 16 \<and> z = CHR ''0'' \<and> (x = CHR ''x'' \<or> x = CHR ''X'') \<and> digit_value d < 16
         then d # r else s)
      | _ \<Rightarrow> s)"

definition scan_number :: "nat \<Rightarrow> string \<Rightarrow> (bool \<times> nat) option" where
  "scan_number base s =
     (let (neg, s1) = scan_sign (dropWhile isspace s);
          ds = takeWhile (\<lambda>c. digit_value c < base) (scan_prefix base s1)
      in if ds = [] then None else Some (neg, digits_value base ds))"

text \<open>\<^verbatim>\<open>unsigned long\<close> and \<^verbatim>\<open>long\<close> have 64 bits; the flag says that \<^verbatim>\<open>errno\<close> is \<^verbatim>\<open>ERANGE\<close>.\<close>

definition strtoul_value :: "bool \<Rightarrow> nat \<Rightarrow> bool \<times> int" where
  "strtoul_value neg m =
     (if 2 ^ 64 \<le> m then (True, 2 ^ 64 - 1)
      else (False, (if neg then - int m else int m) mod 2 ^ 64))"

definition strtol_value :: "bool \<Rightarrow> nat \<Rightarrow> int" where
  "strtol_value neg m = max (- (2 ^ 63)) (min (2 ^ 63 - 1) (if neg then - int m else int m))"

definition strtol10 :: "string \<Rightarrow> int" where
  "strtol10 s = (case scan_number 10 s of None \<Rightarrow> 0 | Some (neg, m) \<Rightarrow> strtol_value neg m)"

section \<open>Printing\<close>

definition digit_char :: "nat \<Rightarrow> char" where
  "digit_char d = (if d < 10 then char_of (48 + d) else char_of (55 + d))"

fun print_fixed :: "nat \<Rightarrow> nat \<Rightarrow> nat \<Rightarrow> string" where
  "print_fixed base 0 n = []"
| "print_fixed base (Suc k) n = print_fixed base k (n div base) @ [digit_char (n mod base)]"

fun print_nat :: "nat \<Rightarrow> string" where
  "print_nat n = (if n < 10 then [digit_char n] else print_nat (n div 10) @ [digit_char (n mod 10)])"

declare print_nat.simps [simp del]

definition print_int :: "int \<Rightarrow> string" where
  "print_int i = (if i < 0 then CHR ''-'' # print_nat (nat (- i)) else print_nat (nat i))"

text \<open>\<^verbatim>\<open>%02d\<close> and \<^verbatim>\<open>%08X\<close>.\<close>

definition print_02d :: "int \<Rightarrow> string" where
  "print_02d i = (if 0 \<le> i \<and> i < 10 then CHR ''0'' # print_int i else print_int i)"

definition print_08X :: "u32 \<Rightarrow> string" where
  "print_08X w = print_fixed 16 8 (unat w)"

text \<open>\<^verbatim>\<open>snprintf\<close> keeps what fits with the terminator.\<close>

definition snprintf_to :: "nat \<Rightarrow> string \<Rightarrow> string" where
  "snprintf_to n s = take (n - 1) s"

lemma of_char_char_of_nat: "n < 256 \<Longrightarrow> of_char (char_of n) = (n :: nat)"
  by simp

lemma digit_value_digit_char: "d < 16 \<Longrightarrow> digit_value (digit_char d) = d"
  by (simp add: digit_value_def digit_char_def of_char_char_of_nat)

lemma length_print_fixed [simp]: "length (print_fixed base k n) = k"
  by (induction k arbitrary: n) auto

lemma digits_value_snoc: "digits_value base (s @ [c]) = digits_value base s * base + digit_value c"
  by (simp add: digits_value_def)

lemma digits_print_fixed:
  assumes "0 < base" "base \<le> 16"
  shows "n < base ^ k \<Longrightarrow> digits_value base (print_fixed base k n) = n"
    and "c \<in> set (print_fixed base k n) \<Longrightarrow> \<exists>d<base. c = digit_char d"
proof (induction k arbitrary: n)
  case (Suc k)
  {
    case 1
    then have "n div base < base ^ k" using assms(1) by (simp add: div_less_iff_less_mult mult.commute)
    moreover have "n mod base < 16" using assms by (meson le_trans less_le_trans mod_less_divisor)
    ultimately show ?case
      using Suc.IH(1) by (simp add: digits_value_snoc digit_value_digit_char)
  next
    case 2
    then show ?case
    proof (cases "c \<in> set (print_fixed base k (n div base))")
      case True
      then show ?thesis by (rule Suc.IH(2))
    next
      case False
      then have "c = digit_char (n mod base)" using 2 by simp
      then show ?thesis using assms(1) by (intro exI [of _ "n mod base"]) simp
    qed
  }
qed (auto simp: digits_value_def)

lemma digits_print_nat: "digits_value 10 (print_nat n) = n" "c \<in> set (print_nat n) \<Longrightarrow> \<exists>d<10. c = digit_char d"
  "print_nat n \<noteq> []"
proof -
  have "digits_value 10 (print_nat n) = n \<and> (\<forall>c\<in>set (print_nat n). \<exists>d<10. c = digit_char d) \<and> print_nat n \<noteq> []"
  proof (induction n rule: print_nat.induct)
    case (1 n)
    show ?case
    proof (cases "n < 10")
      case True
      then show ?thesis
        by (auto simp: print_nat.simps [of n] digits_value_def digit_value_digit_char)
    next
      case False
      have "n mod 10 < 16" by (rule less_trans [of _ 10]) simp_all
      then show ?thesis using 1 False
        by (auto simp: print_nat.simps [of n] digits_value_snoc digit_value_digit_char
            intro!: exI [of _ "n mod 10"])
    qed
  qed
  then show "digits_value 10 (print_nat n) = n" "c \<in> set (print_nat n) \<Longrightarrow> \<exists>d<10. c = digit_char d"
    "print_nat n \<noteq> []" by auto
qed

end
