(* ===== verification/Word_Bits.thy ===== *)
theory Word_Bits
  imports Prelude
begin

text \<open>
  Bit operations as arithmetic: the facts about \<open>AND\<close>, \<open>OR\<close>, shifts and conversions of
  bytes and 32-bit words that the UTF-8 routines and the colour decoding need, stated on
  \<open>unat\<close>.
\<close>

section \<open>Disjoint or, and with a high mask\<close>

lemma nat_or_high: "(a :: nat) < 2 ^ k \<Longrightarrow> a OR push_bit k c = a + push_bit k c"
proof (rule disjunctive_add [symmetric])
  fix n
  assume "a < 2 ^ k"
  then have "take_bit k a = a" by (simp add: take_bit_nat_eq_self)
  then show "\<not> bit a n \<or> \<not> bit (push_bit k c) n" by (metis bit_take_bit_iff bit_push_bit_iff_nat leD)
qed

lemma nat_or_192: "(a :: nat) < 64 \<Longrightarrow> a OR 192 = a + 192"
  using nat_or_high [of a 6 3] by (simp add: push_bit_eq_mult)

lemma nat_or_128: "(a :: nat) < 128 \<Longrightarrow> a OR 128 = a + 128"
  using nat_or_high [of a 7 1] by (simp add: push_bit_eq_mult)

lemma nat_or_224: "(a :: nat) < 32 \<Longrightarrow> a OR 224 = a + 224"
  using nat_or_high [of a 5 7] by (simp add: push_bit_eq_mult)

lemma nat_or_240: "(a :: nat) < 16 \<Longrightarrow> a OR 240 = a + 240"
  using nat_or_high [of a 4 15] by (simp add: push_bit_eq_mult)

lemma nat_and_high: "(n :: nat) AND push_bit k (mask m) = push_bit k (take_bit m (drop_bit k n))"
  by (rule bit_eqI) (auto simp: bit_simps)

lemma byte_and_high:
  assumes "k \<le> 8"
  shows "unat (b :: byte) AND push_bit k (mask (8 - k)) = 2 ^ k * (unat b div 2 ^ k)"
proof -
  have "unat b < 2 ^ (8 - k) * 2 ^ k"
    using unsigned_less [where w = b and 'a = nat] assms by (simp flip: power_add)
  then have "unat b div 2 ^ k < 2 ^ (8 - k)" by (simp add: div_less_iff_less_mult)
  then have "take_bit (8 - k) (unat b div 2 ^ k) = unat b div 2 ^ k"
    by (simp add: take_bit_nat_eq_self)
  then show ?thesis
    using nat_and_high [of "unat b" k "8 - k"]
    by (simp add: drop_bit_eq_div push_bit_eq_mult mult.commute)
qed

lemma unat_and_prefix:
  fixes b :: byte
  shows "unat (b AND 0x80) = 128 * (unat b div 128)"
    and "unat (b AND 0xC0) = 64 * (unat b div 64)"
    and "unat (b AND 0xE0) = 32 * (unat b div 32)"
    and "unat (b AND 0xF0) = 16 * (unat b div 16)"
    and "unat (b AND 0xF8) = 8 * (unat b div 8)"
    and "unat (b AND 0xFC) = 4 * (unat b div 4)"
    and "unat (b AND 0xFE) = 2 * (unat b div 2)"
  using byte_and_high [of 7 b] byte_and_high [of 6 b] byte_and_high [of 5 b]
    byte_and_high [of 4 b] byte_and_high [of 3 b] byte_and_high [of 2 b] byte_and_high [of 1 b]
  by (simp_all add: unsigned_and_eq push_bit_eq_mult mask_eq_exp_minus_1)

section \<open>Conversions\<close>

lemma unat_ucast_byte: "unat (ucast (w :: u32) :: byte) = unat w mod 256"
  by (simp add: unsigned_ucast_eq take_bit_eq_mod)

lemma unat_and_3f: "unat (w AND 0x3f :: u32) = unat w mod 64"
proof -
  have "unat w AND 63 = take_bit 6 (unat w)" by (simp add: take_bit_eq_mask mask_eq_exp_minus_1)
  then show ?thesis by (simp add: unsigned_and_eq take_bit_eq_mod)
qed

lemma unat_drop: "unat (drop_bit n (ch :: u32)) = unat ch div 2 ^ n"
proof -
  have "take_bit 32 (unat ch) = unat ch"
    using unsigned_less [where w = ch and 'a = nat] by (simp add: take_bit_nat_eq_self)
  then show ?thesis
    by (simp add: unsigned_drop_bit_eq drop_bit_eq_div [where ?'a = nat] del: drop_bit_eq_div)
qed

lemma byte_eq_iff: "(a :: byte) = b \<longleftrightarrow> unat a = unat b"
  by (simp add: word_unat_eq_iff)

section \<open>Digits to base 64\<close>

lemma base64_digits2: "64 * (n div 64) + n mod 64 = (n :: nat)"
  by simp

lemma base64_digits3: "4096 * (n div 4096) + (n div 64 mod 64) * 64 + n mod 64 = (n :: nat)"
proof -
  have "n div 64 = 64 * (n div 4096) + n div 64 mod 64"
    using mult_div_mod_eq [of 64 "n div 64"] by (simp add: div_mult2_eq [symmetric])
  then show ?thesis using base64_digits2 [of n] by linarith
qed

lemma base64_digits4:
  "262144 * (n div 262144) + 4096 * (n div 4096 mod 64) + (n div 64 mod 64) * 64 + n mod 64 = (n :: nat)"
proof -
  have "n div 4096 = 64 * (n div 262144) + n div 4096 mod 64"
    using mult_div_mod_eq [of 64 "n div 4096"] by (simp add: div_mult2_eq [symmetric])
  then show ?thesis using base64_digits3 [of n] by linarith
qed

lemma mult_div_eq_iff:
  fixes n :: nat
  assumes "0 < k" "c = k * m" "c' = c + k"
  shows "k * (n div k) = c \<longleftrightarrow> c \<le> n \<and> n < c'"
proof -
  have "n div k = m \<longleftrightarrow> m \<le> n div k \<and> n div k < Suc m" by auto
  also have "\<dots> \<longleftrightarrow> k * m \<le> n \<and> n < k * m + k"
    using assms(1) by (simp add: less_eq_div_iff_mult_less_eq div_less_iff_less_mult algebra_simps)
  finally show ?thesis using assms by simp
qed

end
