(* ===== verification/Color.thy ===== *)
theory Color
  imports Strings Word_Bits
begin

text \<open>
  \<^verbatim>\<open>src/color.h\<close> and \<open>set_source_u32\<close> of \<^verbatim>\<open>src/render.c\<close>: a color is a 32-bit
  word, red in the highest byte and alpha in the lowest. Whether \<^verbatim>\<open>strtoul\<close> sets
  \<^verbatim>\<open>errno\<close> when the string holds no number is left to the C library and is the
  argument \<open>einval\<close>.
\<close>

type_synonym color_t = u32

definition color_from_string :: "bool \<Rightarrow> string \<Rightarrow> color_t \<Rightarrow> color_t" where
  "color_from_string einval str fallback =
     (if length str \<noteq> 6 \<and> length str \<noteq> 8 then fallback
      else case scan_number 16 str of
        None \<Rightarrow> (if einval then fallback else 0)
      | Some (neg, m) \<Rightarrow>
          (let (erange, v) = strtoul_value neg m in if erange then fallback else word_of_int v))"

text \<open>The four channels, as the quotients the program passes to cairo.\<close>

definition channel :: "color_t \<Rightarrow> nat \<Rightarrow> rat" where
  "channel color k = of_nat (unat (drop_bit (k * 8) color AND 0xFF)) / 255"

definition set_source_u32 :: "color_t \<Rightarrow> rat \<times> rat \<times> rat \<times> rat" where
  "set_source_u32 color = (channel color 3, channel color 2, channel color 1, channel color 0)"

definition is_hex :: "char \<Rightarrow> bool" where
  "is_hex c \<longleftrightarrow> digit_value c < 16"

lemma hex_not_special: "is_hex c \<Longrightarrow> \<not> isspace c \<and> c \<noteq> CHR ''-'' \<and> c \<noteq> CHR ''+'' \<and> c \<noteq> CHR ''x'' \<and> c \<noteq> CHR ''X''"
  by (auto simp: is_hex_def digit_value_def isspace_def Let_def)

lemma scan_hex:
  assumes "\<forall>c\<in>set s. is_hex c" "s \<noteq> []"
  shows "scan_number 16 s = Some (False, digits_value 16 s)"
proof -
  obtain c r where c: "s = c # r" "is_hex c" using assms by (cases s) auto
  have "dropWhile isspace s = s" using c hex_not_special by simp
  moreover have "scan_sign s = (False, s)" using c hex_not_special by (simp add: scan_sign_def)
  moreover have "scan_prefix 16 s = s"
    using assms(1) hex_not_special by (auto simp: scan_prefix_def split: list.splits)
  moreover have "takeWhile (\<lambda>c. digit_value c < 16) s = s"
    unfolding takeWhile_eq_all_conv using assms(1) by (simp add: is_hex_def)
  ultimately show ?thesis using assms(2) unfolding scan_number_def by (simp only: Let_def case_prod_conv if_False)
qed

lemma digits_value_bound: "0 < base \<Longrightarrow> \<forall>c\<in>set s. digit_value c < base \<Longrightarrow> digits_value base s < base ^ length s"
proof (induction s rule: rev_induct)
  case (snoc c s)
  then have "digits_value base s + 1 \<le> base ^ length s" "digit_value c + 1 \<le> base" by auto
  then have "(digits_value base s + 1) * base \<le> base ^ length s * base" by (intro mult_le_mono1)
  then show ?case using \<open>digit_value c + 1 \<le> base\<close>
    by (simp add: digits_value_snoc algebra_simps del: mult_le_cancel2 mult_le_cancel1)
qed (simp add: digits_value_def)

lemma color_of_hex:
  assumes "\<forall>c\<in>set s. is_hex c" "length s = 6 \<or> length s = 8"
  shows "color_from_string einval s fallback = word_of_nat (digits_value 16 s)"
    and "digits_value 16 s < 16 ^ length s"
proof -
  show b: "digits_value 16 s < 16 ^ length s"
    using digits_value_bound [of 16 s] assms(1) by (simp add: is_hex_def)
  then have "digits_value 16 s < 2 ^ 64" using assms(2) by auto
  moreover have "s \<noteq> []" using assms(2) by auto
  ultimately show "color_from_string einval s fallback = word_of_nat (digits_value 16 s)"
    using assms scan_hex [OF assms(1)]
    by (auto simp: color_from_string_def strtoul_value_def simp flip: of_nat_mod)
qed

lemma print_08X_hex: "\<forall>c\<in>set (print_08X w). is_hex c" "length (print_08X w) = 8"
  "digits_value 16 (print_08X w) = unat w"
proof -
  show "\<forall>c\<in>set (print_08X w). is_hex c"
    using digits_print_fixed(2) [of 16 _ 8 "unat w"]
    by (auto simp: print_08X_def is_hex_def digit_value_digit_char dest!: digits_print_fixed(2) [rotated 2])
  show "length (print_08X w) = 8" by (simp add: print_08X_def)
  have "unat w < 16 ^ 8" using unsigned_less [of w, where 'a = nat] by simp
  then show "digits_value 16 (print_08X w) = unat w"
    unfolding print_08X_def by (intro digits_print_fixed(1)) simp_all
qed

lemma color_print_parse: "color_from_string einval (print_08X w) fallback = w"
  using color_of_hex(1) [of "print_08X w"] print_08X_hex [of w] by simp

lemma channel_byte: "channel color k = of_nat (unat color div 2 ^ (8 * k) mod 256) / 255"
proof -
  have "unat (drop_bit (k * 8) color AND 0xFF) = unat color div 2 ^ (8 * k) mod 256"
  proof -
    have "unat (drop_bit (k * 8) color AND 0xFF) = take_bit 8 (unat (drop_bit (k * 8) color))"
      using unsigned_and_eq [of "drop_bit (k * 8) color" "0xFF :: u32", where 'a = nat]
      by (simp add: take_bit_eq_mask mask_numeral)
    then show ?thesis by (simp add: unat_drop take_bit_eq_mod mult.commute)
  qed
  then show ?thesis by (simp add: channel_def)
qed

end
