(* ===== verification/Background.thy ===== *)
theory Background
  imports Strings
begin

text \<open>
  \<^verbatim>\<open>src/background.c\<close>: the background modes and where the image goes. The reader of
  PNG files is an argument: \<open>None\<close> is the null pointer, the flag is the status of the cairo
  surface. \<open>bg_render_image\<close> returns what it does to the drawing context between save and
  restore: the scale factors and the source, with its offset in units of the scaled context.
  The program computes in \<^verbatim>\<open>double\<close>; here the numbers are rationals, so rounding is not
  modelled. \<open>ndebug\<close> says that the assertions are compiled out.
\<close>

datatype background_mode =
    BACKGROUND_MODE_STRETCH | BACKGROUND_MODE_FILL | BACKGROUND_MODE_FIT | BACKGROUND_MODE_CENTER
  | BACKGROUND_MODE_TILE | BACKGROUND_MODE_SOLID_COLOR | BACKGROUND_MODE_INVALID

record image_t =
  im_width :: int
  im_height :: int
  im_opaque :: bool

definition bg_parse_mode :: "string \<Rightarrow> background_mode" where
  "bg_parse_mode m =
     (if strcmp m ''stretch'' = 0 then BACKGROUND_MODE_STRETCH
      else if strcmp m ''fill'' = 0 then BACKGROUND_MODE_FILL
      else if strcmp m ''fit'' = 0 then BACKGROUND_MODE_FIT
      else if strcmp m ''center'' = 0 then BACKGROUND_MODE_CENTER
      else if strcmp m ''tile'' = 0 then BACKGROUND_MODE_TILE
      else if strcmp m ''solid_color'' = 0 then BACKGROUND_MODE_SOLID_COLOR
      else BACKGROUND_MODE_INVALID)"

definition bg_load_image :: "(string \<Rightarrow> (bool \<times> image_t) option) \<Rightarrow> string \<Rightarrow> image_t option" where
  "bg_load_image read_png path =
     (case read_png path of
        None \<Rightarrow> None
      | Some (status_ok, img) \<Rightarrow> if status_ok then Some img else None)"

datatype bg_source = SourceImage rat rat | SourceRepeat | SourceKept

definition trunc :: "rat \<Rightarrow> int" where
  "trunc r = (if r < 0 then \<lceil>r\<rceil> else \<lfloor>r\<rfloor>)"

definition bg_render_image ::
  "bool \<Rightarrow> image_t \<Rightarrow> background_mode \<Rightarrow> int \<Rightarrow> int \<Rightarrow> (rat \<times> rat \<times> bg_source) comp" where
  "bg_render_image ndebug img m buffer_width buffer_height =
     (if \<not> ndebug \<and> \<not> (buffer_width > 0 \<and> buffer_height > 0) then Fault
      else let bw = rat_of_int buffer_width; bh = rat_of_int buffer_height;
               width = rat_of_int (im_width img); height = rat_of_int (im_height img);
               window_ratio = bw / bh; bg_ratio = width / height in
      case m of
        BACKGROUND_MODE_STRETCH \<Rightarrow> Done (bw / width, bh / height, SourceImage 0 0)
      | BACKGROUND_MODE_FILL \<Rightarrow>
          (if window_ratio > bg_ratio
           then let scale = bw / width in Done (scale, scale, SourceImage 0 (bh / 2 / scale - height / 2))
           else let scale = bh / height in Done (scale, scale, SourceImage (bw / 2 / scale - width / 2) 0))
      | BACKGROUND_MODE_FIT \<Rightarrow>
          (if window_ratio > bg_ratio
           then let scale = bh / height in Done (scale, scale, SourceImage (bw / 2 / scale - width / 2) 0)
           else let scale = bw / width in Done (scale, scale, SourceImage 0 (bh / 2 / scale - height / 2)))
      | BACKGROUND_MODE_CENTER \<Rightarrow>
          Done (1, 1, SourceImage (of_int (trunc (bw / 2 - width / 2))) (of_int (trunc (bh / 2 - height / 2))))
      | BACKGROUND_MODE_TILE \<Rightarrow> Done (1, 1, SourceRepeat)
      | _ \<Rightarrow> (if ndebug then Done (1, 1, SourceKept) else Fault))"

section \<open>Modes\<close>

definition mode_name :: "background_mode \<Rightarrow> string" where
  "mode_name m =
     (case m of BACKGROUND_MODE_STRETCH \<Rightarrow> ''stretch'' | BACKGROUND_MODE_FILL \<Rightarrow> ''fill''
      | BACKGROUND_MODE_FIT \<Rightarrow> ''fit'' | BACKGROUND_MODE_CENTER \<Rightarrow> ''center''
      | BACKGROUND_MODE_TILE \<Rightarrow> ''tile'' | BACKGROUND_MODE_SOLID_COLOR \<Rightarrow> ''solid_color''
      | BACKGROUND_MODE_INVALID \<Rightarrow> ''invalid'')"

lemma strcmp_lit: "c_string m \<Longrightarrow> c_string l \<Longrightarrow> (strcmp m l = 0) = (m = l)"
  by (rule strcmp_zero_iff)

lemma c_string_mode_name [simp]: "c_string (mode_name m)"
  by (simp add: mode_name_def c_string_def split: background_mode.split)

lemma bg_parse_mode_name:
  "c_string s \<Longrightarrow> m \<noteq> BACKGROUND_MODE_INVALID \<Longrightarrow> bg_parse_mode s = m \<longleftrightarrow> s = mode_name m"
  by (cases m) (auto simp: bg_parse_mode_def mode_name_def strcmp_lit [unfolded c_string_def] c_string_def)

section \<open>Geometry\<close>

text \<open>The edges of the image on the buffer.\<close>

definition image_span :: "rat \<Rightarrow> rat \<Rightarrow> int \<Rightarrow> rat \<times> rat" where
  "image_span scale off w = (scale * off, scale * (off + of_int w))"

definition placed ::
  "bool \<Rightarrow> image_t \<Rightarrow> background_mode \<Rightarrow> int \<Rightarrow> int \<Rightarrow> ((rat \<times> rat) \<times> (rat \<times> rat)) option" where
  "placed ndebug img m bw bh =
     (case bg_render_image ndebug img m bw bh of
        Done (sx, sy, SourceImage x y) \<Rightarrow>
          Some (image_span sx x (im_width img), image_span sy y (im_height img))
      | _ \<Rightarrow> None)"

lemma scaled_span:
  assumes "0 < w" "0 < b"
  shows "image_span (of_int b / of_int w) 0 w = (0, of_int b)"
  using assms by (simp add: image_span_def)

lemma centred_span:
  assumes "0 < scale"
  shows "image_span scale (of_int b / 2 / scale - of_int w / 2) w =
    (of_int b / 2 - scale * of_int w / 2, of_int b / 2 + scale * of_int w / 2)"
  using assms by (simp add: image_span_def field_simps)

lemma ratio_iff:
  assumes "0 < w" "0 < h" "0 < bw" "0 < bh"
  shows "rat_of_int bw / of_int bh > of_int w / of_int h \<longleftrightarrow> of_int bw / of_int w * of_int h > rat_of_int bh"
    and "rat_of_int bw / of_int bh > of_int w / of_int h \<longleftrightarrow> of_int bh / of_int h * of_int w < rat_of_int bw"
  using assms by (simp_all add: field_simps)

lemma span_facts:
  fixes a b :: rat
  shows "(b / 2 + a / 2) - (b / 2 - a / 2) = a" "(b / 2 - a / 2) + (b / 2 + a / 2) = b"
    "b / 2 - a / 2 \<le> 0 \<longleftrightarrow> b \<le> a" "0 \<le> b / 2 - a / 2 \<longleftrightarrow> a \<le> b"
    "b \<le> b / 2 + a / 2 \<longleftrightarrow> b \<le> a" "b / 2 + a / 2 \<le> b \<longleftrightarrow> a \<le> b"
  by auto

lemma placed_cases:
  assumes "0 < im_width img" "0 < im_height img" "0 < bw" "0 < bh"
  shows "placed nd img BACKGROUND_MODE_STRETCH bw bh = Some ((0, of_int bw), (0, of_int bh))"
    and "\<exists>l r t b. placed nd img BACKGROUND_MODE_FILL bw bh = Some ((l, r), (t, b)) \<and>
      l \<le> 0 \<and> of_int bw \<le> r \<and> t \<le> 0 \<and> of_int bh \<le> b \<and> l + r = of_int bw \<and> t + b = of_int bh \<and>
      (l = 0 \<or> t = 0) \<and> (r - l) * of_int (im_height img) = (b - t) * of_int (im_width img)"
    and "\<exists>l r t b. placed nd img BACKGROUND_MODE_FIT bw bh = Some ((l, r), (t, b)) \<and>
      0 \<le> l \<and> r \<le> of_int bw \<and> 0 \<le> t \<and> b \<le> of_int bh \<and> l + r = of_int bw \<and> t + b = of_int bh \<and>
      (l = 0 \<or> t = 0) \<and> (r - l) * of_int (im_height img) = (b - t) * of_int (im_width img)"
proof -
  let ?w = "im_width img" and ?h = "im_height img"
  let ?sw = "rat_of_int bw / of_int ?w" and ?sh = "rat_of_int bh / of_int ?h"
  have pos: "0 < ?sw" "0 < ?sh" using assms by simp_all
  note spans = scaled_span [OF assms(1,3)] scaled_span [OF assms(2,4)]
    centred_span [OF pos(1), of bh ?h] centred_span [OF pos(2), of bw ?w]
  note ratio = ratio_iff [OF assms]
  have id: "?sw * of_int ?w = of_int bw" "?sh * of_int ?h = of_int bh" using assms by simp_all
  show "placed nd img BACKGROUND_MODE_STRETCH bw bh = Some ((0, of_int bw), (0, of_int bh))"
    using assms spans by (simp add: placed_def bg_render_image_def)
  show "\<exists>l r t b. placed nd img BACKGROUND_MODE_FILL bw bh = Some ((l, r), (t, b)) \<and>
      l \<le> 0 \<and> of_int bw \<le> r \<and> t \<le> 0 \<and> of_int bh \<le> b \<and> l + r = of_int bw \<and> t + b = of_int bh \<and>
      (l = 0 \<or> t = 0) \<and> (r - l) * of_int ?h = (b - t) * of_int ?w"
  proof (cases "rat_of_int bw / of_int bh > of_int ?w / of_int ?h")
    case True
    define a where "a = ?sw * of_int ?h"
    from True have P: "placed nd img BACKGROUND_MODE_FILL bw bh = Some ((0, of_int bw),
        (of_int bh / 2 - a / 2, of_int bh / 2 + a / 2))"
      using assms spans by (simp add: placed_def bg_render_image_def Let_def a_def)
    have c: "a > of_int bh" using True ratio by (simp add: a_def)
    have e: "of_int bw * of_int ?h = a * of_int ?w" using assms by (simp add: a_def)
    show ?thesis unfolding P using c e by (simp add: span_facts)
  next
    case False
    define a where "a = ?sh * of_int ?w"
    from False have P: "placed nd img BACKGROUND_MODE_FILL bw bh = Some
        ((of_int bw / 2 - a / 2, of_int bw / 2 + a / 2), (0, of_int bh))"
      using assms spans by (simp add: placed_def bg_render_image_def Let_def a_def)
    have c: "a \<ge> of_int bw" using False ratio by (simp add: a_def)
    have e: "a * of_int ?h = of_int bh * of_int ?w" using assms by (simp add: a_def)
    show ?thesis unfolding P using c e by (simp add: span_facts)
  qed
  show "\<exists>l r t b. placed nd img BACKGROUND_MODE_FIT bw bh = Some ((l, r), (t, b)) \<and>
      0 \<le> l \<and> r \<le> of_int bw \<and> 0 \<le> t \<and> b \<le> of_int bh \<and> l + r = of_int bw \<and> t + b = of_int bh \<and>
      (l = 0 \<or> t = 0) \<and> (r - l) * of_int ?h = (b - t) * of_int ?w"
  proof (cases "rat_of_int bw / of_int bh > of_int ?w / of_int ?h")
    case True
    define a where "a = ?sh * of_int ?w"
    from True have P: "placed nd img BACKGROUND_MODE_FIT bw bh = Some
        ((of_int bw / 2 - a / 2, of_int bw / 2 + a / 2), (0, of_int bh))"
      using assms spans by (simp add: placed_def bg_render_image_def Let_def a_def)
    have c: "a < of_int bw" using True ratio by (simp add: a_def)
    have e: "a * of_int ?h = of_int bh * of_int ?w" using assms by (simp add: a_def)
    show ?thesis unfolding P using c e by (simp add: span_facts)
  next
    case False
    define a where "a = ?sw * of_int ?h"
    from False have P: "placed nd img BACKGROUND_MODE_FIT bw bh = Some ((0, of_int bw),
        (of_int bh / 2 - a / 2, of_int bh / 2 + a / 2))"
      using assms spans by (simp add: placed_def bg_render_image_def Let_def a_def)
    have c: "a \<le> of_int bh" using False ratio by (simp add: a_def)
    have e: "of_int bw * of_int ?h = a * of_int ?w" using assms by (simp add: a_def)
    show ?thesis unfolding P using c e by (simp add: span_facts)
  qed
qed

section \<open>Properties\<close>

text \<open>
  C37: the geometry of the modes. \<open>stretch\<close> puts the image exactly on the buffer; \<open>fill\<close> covers
  the whole buffer and \<open>fit\<close> stays inside it, both centred, with the aspect ratio of the image
  and touching two opposite edges.
\<close>

theorem image_placement:
  assumes "0 < im_width img" "0 < im_height img" "0 < bw" "0 < bh"
  shows "placed nd img BACKGROUND_MODE_STRETCH bw bh = Some ((0, of_int bw), (0, of_int bh)) \<and>
    (\<exists>l r t b. placed nd img BACKGROUND_MODE_FILL bw bh = Some ((l, r), (t, b)) \<and>
      l \<le> 0 \<and> of_int bw \<le> r \<and> t \<le> 0 \<and> of_int bh \<le> b \<and> l + r = of_int bw \<and> t + b = of_int bh \<and>
      (l = 0 \<or> t = 0) \<and> (r - l) * of_int (im_height img) = (b - t) * of_int (im_width img)) \<and>
    (\<exists>l r t b. placed nd img BACKGROUND_MODE_FIT bw bh = Some ((l, r), (t, b)) \<and>
      0 \<le> l \<and> r \<le> of_int bw \<and> 0 \<le> t \<and> b \<le> of_int bh \<and> l + r = of_int bw \<and> t + b = of_int bh \<and>
      (l = 0 \<or> t = 0) \<and> (r - l) * of_int (im_height img) = (b - t) * of_int (im_width img))"
  using placed_cases [OF assms] by blast

theorem image_placement_witness:
  "\<exists>l r t b. placed True \<lparr>im_width = 4, im_height = 3, im_opaque = True\<rparr> BACKGROUND_MODE_FILL 1920 1080 = Some ((l, r), (t, b)) \<and>
     l \<le> 0 \<and> 1920 \<le> r \<and> t \<le> 0 \<and> 1080 \<le> b"
  using image_placement [of "\<lparr>im_width = 4, im_height = 3, im_opaque = True\<rparr>" 1920 1080 True] by auto

text \<open>
  the names of the modes and the parser of modes are inverse, and every other string is the
  invalid mode.
\<close>

theorem mode_roundtrip:
  assumes "c_string s"
  shows "(m \<noteq> BACKGROUND_MODE_INVALID \<longrightarrow> bg_parse_mode (mode_name m) = m) \<and>
    (bg_parse_mode s \<noteq> BACKGROUND_MODE_INVALID \<longrightarrow> mode_name (bg_parse_mode s) = s)"
  using bg_parse_mode_name [OF assms, of "bg_parse_mode s"] bg_parse_mode_name [of "mode_name m" m] by auto

theorem mode_roundtrip_witness: "bg_parse_mode ''tile'' = BACKGROUND_MODE_TILE \<and> bg_parse_mode ''Tile'' = BACKGROUND_MODE_INVALID"
  using mode_roundtrip [of "''tile''" BACKGROUND_MODE_TILE]
  by (simp add: c_string_def mode_name_def bg_parse_mode_def)

end
