(* ===== verification/Config.thy ===== *)
theory Config
  imports Color Background
begin

text \<open>
  \<^verbatim>\<open>src/config.c\<close>: the configuration, its file format, the lookup of the file and the
  loading of the background image. \<open>cfg_t\<close> is the C struct with its nested structs
  flattened. The file is the list of the strings \<^verbatim>\<open>getline\<close> returns, computed from its
  contents by \<open>getlines\<close>. The shell expansion \<^verbatim>\<open>wordexp\<close> is an argument that returns
  the words, or \<open>None\<close> if it fails, and so is the reader of PNG files.
\<close>

record cfg_t =
  c_background :: color_t
  c_overlay :: color_t
  c_text :: color_t
  c_warning :: color_t
  c_error :: color_t
  bg_path :: "string option"
  bg_mode :: background_mode
  font_family :: string
  font_size :: u32

record dewlock_image =
  di_path :: string
  di_output :: "string option"
  di_surface :: image_t

section \<open>The file format\<close>

definition first_char :: "string \<Rightarrow> char" where
  "first_char s = (case s of [] \<Rightarrow> CHR 0x00 | c # _ \<Rightarrow> c)"

definition streql :: "string \<Rightarrow> string \<Rightarrow> bool" where
  "streql a b \<longleftrightarrow> first_char a = first_char b \<and> strcmp a b = 0"

text \<open>\<^verbatim>\<open>init\<close>; the path of the background is not touched.\<close>

definition cfg_init :: "cfg_t \<Rightarrow> cfg_t" where
  "cfg_init cfg = cfg\<lparr>font_family := ''sans-serif'', font_size := 16, bg_mode := BACKGROUND_MODE_FILL,
     c_background := 0xA3A3A3FF, c_overlay := 0x00000055, c_text := 0xFFFFFFFF,
     c_warning := 0xffdd00ff, c_error := 0xcc6566ff\<rparr>"

definition cfg_zero :: cfg_t where
  "cfg_zero = \<lparr>c_background = 0, c_overlay = 0, c_text = 0, c_warning = 0, c_error = 0,
     bg_path = None, bg_mode = BACKGROUND_MODE_STRETCH, font_family = [], font_size = 0\<rparr>"

definition newline :: char where
  "newline = CHR 0x0A"

fun getlines :: "string \<Rightarrow> string list" where
  "getlines [] = []"
| "getlines (c # cs) =
     (if c = newline then [newline] # getlines cs
      else case getlines cs of [] \<Rightarrow> [[c]] | l # ls \<Rightarrow> (c # l) # ls)"

text \<open>The C string in the line buffer once the newline is cut off.\<close>

definition line_string :: "string \<Rightarrow> string" where
  "line_string raw =
     takeWhile (\<lambda>c. c \<noteq> CHR 0x00) (if raw \<noteq> [] \<and> last raw = newline then butlast raw else raw)"

text \<open>The assignment of a key, for a line that has been split.\<close>

definition cfg_set :: "bool \<Rightarrow> string \<Rightarrow> string \<Rightarrow> string \<Rightarrow> cfg_t \<Rightarrow> cfg_t" where
  "cfg_set einval namespace key v cfg =
     (if streql namespace ''background'' \<and> streql key ''path'' then cfg\<lparr>bg_path := Some v\<rparr>
      else if streql namespace ''background'' \<and> streql key ''mode'' then cfg\<lparr>bg_mode := bg_parse_mode v\<rparr>
      else if streql namespace ''font'' \<and> streql key ''family'' then cfg\<lparr>font_family := v\<rparr>
      else if streql namespace ''font'' \<and> streql key ''size'' then cfg\<lparr>font_size := word_of_int (strtol10 v)\<rparr>
      else if streql namespace ''color'' then
        (if streql key ''background'' then cfg\<lparr>c_background := color_from_string einval v (c_background cfg)\<rparr>
         else if streql key ''overlay'' then cfg\<lparr>c_overlay := color_from_string einval v (c_overlay cfg)\<rparr>
         else if streql key ''text'' then cfg\<lparr>c_text := color_from_string einval v (c_text cfg)\<rparr>
         else if streql key ''warning'' then cfg\<lparr>c_warning := color_from_string einval v (c_warning cfg)\<rparr>
         else if streql key ''error'' then cfg\<lparr>c_error := color_from_string einval v (c_error cfg)\<rparr>
         else cfg)
      else cfg)"

definition cfg_line :: "bool \<Rightarrow> string \<Rightarrow> cfg_t \<Rightarrow> cfg_t" where
  "cfg_line einval raw cfg =
     (let line = line_string raw in
      if line = [] \<or> first_char line = CHR ''#'' then cfg
      else case split_at (CHR ''='') line of
        None \<Rightarrow> cfg
      | Some (left, v) \<Rightarrow>
          (case split_at (CHR ''.'') left of
             None \<Rightarrow> cfg
           | Some (namespace, key) \<Rightarrow> cfg_set einval namespace key v cfg))"

definition cfg_parse :: "bool \<Rightarrow> string \<Rightarrow> cfg_t \<Rightarrow> cfg_t" where
  "cfg_parse einval contents cfg = foldl (\<lambda>c raw. cfg_line einval raw c) cfg (getlines contents)"

section \<open>The background image\<close>

definition join_args :: "string list \<Rightarrow> string comp" where
  "join_args argv = (if argv = [] then Fault else Done (butlast (concat (map (\<lambda>a. a @ '' '') argv))))"

text \<open>\<^verbatim>\<open>strstr\<close> for two spaces, as the pieces around the gap between them.\<close>

fun double_space :: "string \<Rightarrow> (string \<times> string) option" where
  "double_space (a # b # r) =
     (if a = CHR '' '' \<and> b = CHR '' '' then Some ([a], b # r)
      else case double_space (b # r) of None \<Rightarrow> None | Some (x, y) \<Rightarrow> Some (a # x, y))"
| "double_space s = None"

fun gaps :: "string \<Rightarrow> nat" where
  "gaps (a # b # r) = (if a = CHR '' '' \<and> b = CHR '' '' then 1 else 0) + gaps (b # r)"
| "gaps s = 0"

lemma gaps_escape: "double_space s = Some (x, y) \<Longrightarrow> gaps (x @ CHR 0x5C # y) < gaps s"
proof (induction s arbitrary: x rule: double_space.induct)
  case (1 a b r)
  show ?case
  proof (cases "a = CHR '' '' \<and> b = CHR '' ''")
    case True
    then show ?thesis using 1 by (cases r) auto
  next
    case False
    then obtain x' where x': "double_space (b # r) = Some (x', y)" "x = a # x'"
      using 1 by (auto split: option.splits)
    have "x' \<noteq> [] \<and> hd x' = b" using x'(1) by (cases r) (auto split: if_splits option.splits)
    then obtain x'' where x'': "x' = b # x''" by (cases x') auto
    then show ?thesis using 1(1) [OF False x'(1)] x' False by (cases x'') auto
  qed
qed auto

text \<open>The loop that puts a backslash between two spaces.\<close>

function escape_spaces :: "string \<Rightarrow> string" where
  "escape_spaces s = (case double_space s of None \<Rightarrow> s | Some (x, y) \<Rightarrow> escape_spaces (x @ CHR 0x5C # y))"
  by pat_completeness auto
termination
  by (relation "measure gaps") (auto simp: gaps_escape)

declare escape_spaces.simps [simp del]

definition remove_image :: "string option \<Rightarrow> dewlock_image list \<Rightarrow> dewlock_image list" where
  "remove_image out images =
     takeWhile (\<lambda>i. lenient_strcmp (di_output i) out \<noteq> 0) images @
     tl (dropWhile (\<lambda>i. lenient_strcmp (di_output i) out \<noteq> 0) images)"

text \<open>\<^verbatim>\<open>load_image\<close> also cuts \<^verbatim>\<open>cfg.background.path\<close> at the colon.\<close>

definition load_image ::
  "(string \<Rightarrow> string list option) \<Rightarrow> (string \<Rightarrow> (bool \<times> image_t) option) \<Rightarrow> cfg_t
     \<Rightarrow> dewlock_image list \<Rightarrow> (cfg_t \<times> dewlock_image list) comp" where
  "load_image wordexp read_png cfg images =
     (case bg_path cfg of
        None \<Rightarrow> Done (cfg, images)
      | Some raw \<Rightarrow>
          (let (cfg1, out, p) =
             (case split_at (CHR '':'') raw of
                Some (name, rest) \<Rightarrow>
                  (cfg\<lparr>bg_path := Some name\<rparr>, if name = [] then None else Some name, rest)
              | None \<Rightarrow> (cfg, None, raw));
               images1 = remove_image out images;
               p1 = escape_spaces p
           in cbind (case wordexp p1 of Some ws \<Rightarrow> join_args ws | None \<Rightarrow> Done p1)
                (\<lambda>p2. Done (cfg1,
                   case bg_load_image read_png p2 of
                     None \<Rightarrow> images1
                   | Some img \<Rightarrow> \<lparr>di_path = p2, di_output = out, di_surface = img\<rparr> # images1))))"

section \<open>Reading the configuration\<close>

text \<open>
  \<open>readable\<close> says whether \<^verbatim>\<open>access\<close> finds a readable file at the path; a path that
  expands to no word is a null pointer, and copying it is a fault.
\<close>

definition config_paths :: "string \<Rightarrow> string list" where
  "config_paths sysconfdir =
     [''$XDG_CONFIG_HOME/dewlock/config'', ''$HOME/.config/dewlock/config'',
      sysconfdir @ ''/dewlock/config'']"

fun cfg_path_loop :: "(string \<Rightarrow> string list option) \<Rightarrow> (string \<Rightarrow> bool) \<Rightarrow> string list \<Rightarrow> string option comp" where
  "cfg_path_loop wordexp readable [] = Done None"
| "cfg_path_loop wordexp readable (p # ps) =
     (case wordexp p of
        None \<Rightarrow> cfg_path_loop wordexp readable ps
      | Some [] \<Rightarrow> Fault
      | Some (w # ws) \<Rightarrow> if readable w then Done (Some w) else cfg_path_loop wordexp readable ps)"

definition cfg_path ::
  "(string \<Rightarrow> string list option) \<Rightarrow> (string \<Rightarrow> bool) \<Rightarrow> string \<Rightarrow> string option comp" where
  "cfg_path wordexp readable sysconfdir = cfg_path_loop wordexp readable (config_paths sysconfdir)"

definition cfg_read ::
  "bool \<Rightarrow> (string \<Rightarrow> string option) \<Rightarrow> (string \<Rightarrow> string list option) \<Rightarrow> (string \<Rightarrow> (bool \<times> image_t) option)
     \<Rightarrow> string option \<Rightarrow> cfg_t \<Rightarrow> dewlock_image list \<Rightarrow> (cfg_t \<times> dewlock_image list) comp" where
  "cfg_read einval fopen wordexp read_png path cfg images =
     (let cfg1 = cfg_init cfg;
          cfg2 = (case path of
                    None \<Rightarrow> cfg1
                  | Some p \<Rightarrow> (case fopen p of None \<Rightarrow> cfg1 | Some contents \<Rightarrow> cfg_parse einval contents cfg1))
      in load_image wordexp read_png cfg2 images)"

text \<open>The lines \<^verbatim>\<open>cfg_debug\<close> logs.\<close>

definition cfg_debug :: "cfg_t \<Rightarrow> string list" where
  "cfg_debug cfg =
     [''configuration:'',
      ''  background.path='' @ (case bg_path cfg of Some p \<Rightarrow> p | None \<Rightarrow> ''(null)''),
      ''  background.mode='' @ mode_name (bg_mode cfg),
      ''  font.family='' @ font_family cfg,
      ''  font.size='' @ print_nat (unat (font_size cfg)),
      ''  color.background=0x'' @ print_08X (c_background cfg),
      ''  color.overlay=0x'' @ print_08X (c_overlay cfg),
      ''  color.text=0x'' @ print_08X (c_text cfg),
      ''  color.warning=0x'' @ print_08X (c_warning cfg),
      ''  color.error=0x'' @ print_08X (c_error cfg)]"

section \<open>Lines\<close>

lemma streql_iff: "c_string a \<Longrightarrow> c_string b \<Longrightarrow> streql a b \<longleftrightarrow> a = b"
  by (auto simp: streql_def strcmp_zero_iff)

lemma concat_getlines: "concat (getlines s) = s"
  by (induction s) (auto split: list.splits)

lemma getlines_nonempty: "l \<in> set (getlines s) \<Longrightarrow> l \<noteq> []"
  by (induction s arbitrary: l) (auto split: list.splits if_splits)

lemma getlines_newline: "newline \<notin> set l \<Longrightarrow> getlines (l @ newline # s) = (l @ [newline]) # getlines s"
  by (induction l) (auto simp: newline_def)

lemma getlines_unlines:
  "\<forall>l\<in>set ls. newline \<notin> set l \<Longrightarrow> getlines (concat (map (\<lambda>l. l @ [newline]) ls)) = map (\<lambda>l. l @ [newline]) ls"
  by (induction ls) (auto simp: getlines_newline)

text \<open>What may stand on a line.\<close>

definition line_text :: "string \<Rightarrow> bool" where
  "line_text s \<longleftrightarrow> c_string s \<and> newline \<notin> set s"

lemma line_text_append [simp]: "line_text (a @ b) \<longleftrightarrow> line_text a \<and> line_text b"
  by (auto simp: line_text_def c_string_def)

lemma line_text_Cons [simp]:
  "line_text (c # b) \<longleftrightarrow> c \<noteq> CHR 0x00 \<and> c \<noteq> newline \<and> line_text b" "line_text []"
  by (auto simp: line_text_def c_string_def)

lemma line_string_newline: "line_text s \<Longrightarrow> line_string (s @ [newline]) = s"
  by (auto simp: line_string_def line_text_def c_string_def)

lemma line_string_last: "line_text s \<Longrightarrow> line_string s = s"
  by (cases s rule: rev_cases) (auto simp: line_string_def line_text_def c_string_def)

lemma cfg_line_ignored:
  "line_string raw = [] \<or> first_char (line_string raw) = CHR ''#'' \<or>
   CHR ''='' \<notin> set (line_string raw) \<or>
   (\<exists>l v. line_string raw = l @ CHR ''='' # v \<and> CHR ''='' \<notin> set l \<and> CHR ''.'' \<notin> set l) \<Longrightarrow>
   cfg_line einval raw cfg = cfg"
  by (auto simp: cfg_line_def Let_def split_at_None [THEN iffD2] split_at_append split: option.splits)

lemma cfg_line_setting:
  assumes "line_text (ns @ CHR ''.'' # key @ CHR ''='' # v)"
    and "CHR ''.'' \<notin> set ns" "CHR ''='' \<notin> set ns" "CHR ''='' \<notin> set key" "first_char ns \<noteq> CHR ''#''"
  shows "cfg_line einval ((ns @ CHR ''.'' # key @ CHR ''='' # v) @ [newline]) cfg = cfg_set einval ns key v cfg"
proof -
  let ?l = "ns @ CHR ''.'' # key @ CHR ''='' # v"
  have "first_char ?l \<noteq> CHR ''#''" using assms(5) by (auto simp: first_char_def split: list.splits)
  moreover have "split_at (CHR ''='') ?l = Some (ns @ CHR ''.'' # key, v)"
    using split_at_append [of "CHR ''=''" "ns @ CHR ''.'' # key" v] assms by simp
  moreover have "split_at (CHR ''.'') (ns @ CHR ''.'' # key) = Some (ns, key)"
    using assms by (simp add: split_at_append)
  ultimately show ?thesis using line_string_newline [OF assms(1)] by (simp add: cfg_line_def Let_def)
qed

section \<open>Writing a configuration and reading it back\<close>

definition setting :: "string \<Rightarrow> string \<Rightarrow> string \<Rightarrow> string" where
  "setting ns key v = ns @ CHR ''.'' # key @ CHR ''='' # v"

definition print_cfg :: "cfg_t \<Rightarrow> string list" where
  "print_cfg cfg =
     (case bg_path cfg of None \<Rightarrow> [] | Some p \<Rightarrow> [setting ''background'' ''path'' p]) @
     [setting ''background'' ''mode'' (mode_name (bg_mode cfg)),
      setting ''font'' ''family'' (font_family cfg),
      setting ''font'' ''size'' (print_nat (unat (font_size cfg))),
      setting ''color'' ''background'' (print_08X (c_background cfg)),
      setting ''color'' ''overlay'' (print_08X (c_overlay cfg)),
      setting ''color'' ''text'' (print_08X (c_text cfg)),
      setting ''color'' ''warning'' (print_08X (c_warning cfg)),
      setting ''color'' ''error'' (print_08X (c_error cfg))]"

definition cfg_printable :: "cfg_t \<Rightarrow> bool" where
  "cfg_printable cfg \<longleftrightarrow> line_text (font_family cfg) \<and> bg_mode cfg \<noteq> BACKGROUND_MODE_INVALID \<and>
     (case bg_path cfg of None \<Rightarrow> True | Some p \<Rightarrow> line_text p)"

lemma hex_line_text: "\<forall>c\<in>set s. is_hex c \<Longrightarrow> line_text s"
  by (auto simp: line_text_def c_string_def newline_def is_hex_def digit_value_def)

lemma line_text_print_08X [simp]: "line_text (print_08X w)"
  using print_08X_hex(1) by (rule hex_line_text)

lemma print_nat_digits: "\<forall>c\<in>set (print_nat n). digit_value c < 10"
  by (auto dest!: digits_print_nat(2) simp: digit_value_digit_char)

lemma line_text_print_nat [simp]: "line_text (print_nat n)"
  by (rule hex_line_text) (use print_nat_digits in \<open>force simp: is_hex_def\<close>)

lemma line_text_mode_name [simp]: "line_text (mode_name m)"
  by (cases m) (simp_all add: mode_name_def newline_def)

lemma strtol10_print: 
  assumes "n < 2 ^ 63"
  shows "strtol10 (print_nat n) = int n"
proof -
  note d = digits_print_nat [where n = n] and hex = print_nat_digits [of n]
  then have "\<forall>c\<in>set (print_nat n). is_hex c" by (auto simp: is_hex_def)
  then have "dropWhile isspace (print_nat n) = print_nat n" "scan_sign (print_nat n) = (False, print_nat n)"
    using d(3) hex_not_special by (cases "print_nat n"; auto simp: scan_sign_def)+
  moreover have "scan_prefix 10 (print_nat n) = print_nat n"
    by (auto simp: scan_prefix_def split: list.splits)
  moreover have "takeWhile (\<lambda>c. digit_value c < 10) (print_nat n) = print_nat n"
    unfolding takeWhile_eq_all_conv using hex by simp
  ultimately have "scan_number 10 (print_nat n) = Some (False, n)"
    using d(1,3) unfolding scan_number_def by (simp only: Let_def case_prod_conv if_False)
  then show ?thesis using assms by (simp add: strtol10_def strtol_value_def)
qed

text \<open>The documented keys.\<close>

lemma cfg_set_keys:
  "cfg_set einval ''background'' ''path'' v cfg = cfg\<lparr>bg_path := Some v\<rparr>"
  "cfg_set einval ''background'' ''mode'' v cfg = cfg\<lparr>bg_mode := bg_parse_mode v\<rparr>"
  "cfg_set einval ''font'' ''family'' v cfg = cfg\<lparr>font_family := v\<rparr>"
  "cfg_set einval ''font'' ''size'' v cfg = cfg\<lparr>font_size := word_of_int (strtol10 v)\<rparr>"
  "cfg_set einval ''color'' ''background'' v cfg = cfg\<lparr>c_background := color_from_string einval v (c_background cfg)\<rparr>"
  "cfg_set einval ''color'' ''overlay'' v cfg = cfg\<lparr>c_overlay := color_from_string einval v (c_overlay cfg)\<rparr>"
  "cfg_set einval ''color'' ''text'' v cfg = cfg\<lparr>c_text := color_from_string einval v (c_text cfg)\<rparr>"
  "cfg_set einval ''color'' ''warning'' v cfg = cfg\<lparr>c_warning := color_from_string einval v (c_warning cfg)\<rparr>"
  "cfg_set einval ''color'' ''error'' v cfg = cfg\<lparr>c_error := color_from_string einval v (c_error cfg)\<rparr>"
  by (simp_all add: cfg_set_def streql_iff c_string_def)

lemma cfg_line_print:
  assumes "line_text v" "line_text ns" "line_text key" "CHR ''.'' \<notin> set ns" "CHR ''='' \<notin> set ns" "CHR ''='' \<notin> set key"
    "first_char ns \<noteq> CHR ''#''"
  shows "cfg_line einval (setting ns key v @ [newline]) cfg = cfg_set einval ns key v cfg"
  unfolding setting_def using assms by (intro cfg_line_setting) (simp_all add: newline_def)

lemma newline_eq: "c = newline \<longleftrightarrow> c = CHR 0x0A"
  by (simp add: newline_def)

lemma cfg_parse_print:
  assumes "cfg_printable cfg" "bg_path cfg = None \<Longrightarrow> bg_path cfg0 = None"
  shows "cfg_parse einval (concat (map (\<lambda>l. l @ [newline]) (print_cfg cfg))) cfg0 = cfg"
proof -
  have tx: "line_text (font_family cfg)" "\<And>p. bg_path cfg = Some p \<Longrightarrow> line_text p"
    "bg_mode cfg \<noteq> BACKGROUND_MODE_INVALID"
    using assms(1) by (auto simp: cfg_printable_def)
  have "\<forall>l\<in>set (print_cfg cfg). line_text l"
    using tx(1,2) by (auto simp: print_cfg_def setting_def newline_def split: option.splits)
  then have "\<forall>l\<in>set (print_cfg cfg). newline \<notin> set l" by (simp add: line_text_def)
  note lines = getlines_unlines [OF this]
  have pm: "bg_parse_mode (mode_name (bg_mode cfg)) = bg_mode cfg"
    using bg_parse_mode_name [of "mode_name (bg_mode cfg)" "bg_mode cfg"] tx(3) by simp
  have sz: "word_of_int (strtol10 (print_nat (unat (font_size cfg)))) = font_size cfg"
    using strtol10_print [of "unat (font_size cfg)"] unsigned_less [of "font_size cfg", where 'a = nat] by simp
  show ?thesis
    unfolding cfg_parse_def lines
    using tx assms(2) pm sz
    by (cases "bg_path cfg")
      (simp_all add: print_cfg_def cfg_line_print cfg_set_keys first_char_def color_print_parse newline_eq)
qed

section \<open>Escaping\<close>

lemma double_space_Some: "double_space s = Some (x, y) \<Longrightarrow> s = x @ y"
  by (induction s arbitrary: x rule: double_space.induct) (auto split: if_splits option.splits)

lemma double_space_None: "double_space s = None \<longleftrightarrow> gaps s = 0"
  by (induction s rule: double_space.induct) (auto split: option.splits)

lemma escape_spaces_filter: "filter (\<lambda>c. c \<noteq> CHR 0x5C) (escape_spaces s) = filter (\<lambda>c. c \<noteq> CHR 0x5C) s"
proof (induction s rule: escape_spaces.induct)
  case (1 s)
  then show ?case
    by (subst escape_spaces.simps) (auto split: option.splits dest!: double_space_Some)
qed

lemma escape_spaces_no_gap: "gaps (escape_spaces s) = 0"
proof (induction s rule: escape_spaces.induct)
  case (1 s)
  then show ?case
    by (subst escape_spaces.simps) (auto simp: double_space_None split: option.splits)
qed

lemma gaps_iff: "gaps s = 0 \<longleftrightarrow> (\<nexists>x y. s = x @ CHR '' '' # CHR '' '' # y)"
proof
  show "\<nexists>x y. s = x @ CHR '' '' # CHR '' '' # y" if "gaps s = 0"
  proof
    assume "\<exists>x y. s = x @ CHR '' '' # CHR '' '' # y"
    then obtain x y where "s = x @ CHR '' '' # CHR '' '' # y" by blast
    moreover have "gaps (x @ CHR '' '' # CHR '' '' # y) > 0"
    proof (induction x)
      case (Cons a x)
      then show ?case by (cases x) auto
    qed simp
    ultimately show False using that by simp
  qed
  show "gaps s = 0" if "\<nexists>x y. s = x @ CHR '' '' # CHR '' '' # y"
    using that
  proof (induction s rule: gaps.induct)
    case (1 a b r)
    then have "\<not> (a = CHR '' '' \<and> b = CHR '' '')" by (metis append_Nil)
    moreover have "\<nexists>x y. b # r = x @ CHR '' '' # CHR '' '' # y" using 1(2) by (metis append_Cons)
    ultimately show ?case using 1(1) by auto
  qed auto
qed


section \<open>The images\<close>

lemma lenient_strcmp_iff:
  "(\<forall>x. a = Some x \<longrightarrow> c_string x) \<Longrightarrow> (\<forall>y. b = Some y \<longrightarrow> c_string y) \<Longrightarrow> lenient_strcmp a b = 0 \<longleftrightarrow> a = b"
  by (auto simp: lenient_strcmp_def strcmp_zero_iff split: option.splits)

definition images_ok :: "dewlock_image list \<Rightarrow> bool" where
  "images_ok images \<longleftrightarrow> distinct (map di_output images) \<and>
     (\<forall>i\<in>set images. \<forall>x. di_output i = Some x \<longrightarrow> c_string x)"

lemma remove_image_filter:
  assumes "images_ok images" "\<forall>x. out = Some x \<longrightarrow> c_string x"
  shows "remove_image out images = filter (\<lambda>i. di_output i \<noteq> out) images"
  using assms
proof (induction images)
  case (Cons i images)
  then have "lenient_strcmp (di_output i) out = 0 \<longleftrightarrow> di_output i = out"
    by (intro lenient_strcmp_iff) (auto simp: images_ok_def)
  moreover have "filter (\<lambda>j. di_output j \<noteq> out) images = images" if "di_output i = out"
    using Cons.prems that by (auto simp: images_ok_def filter_id_conv) (metis imageI)
  moreover have "remove_image out images = filter (\<lambda>i. di_output i \<noteq> out) images"
    using Cons by (simp add: images_ok_def)
  ultimately show ?case by (auto simp: remove_image_def)
qed (simp add: remove_image_def)

lemma load_image_result:
  assumes "load_image wordexp read_png cfg images = Done (cfg', images')" "images_ok images"
    and "\<forall>p. bg_path cfg = Some p \<longrightarrow> c_string p"
  shows "images_ok images' \<and> cfg'\<lparr>bg_path := bg_path cfg\<rparr> = cfg"
proof (cases "bg_path cfg")
  case (Some raw)
  define out where "out = (case split_at (CHR '':'') raw of
      Some (name, rest) \<Rightarrow> if name = [] then None else Some name | None \<Rightarrow> None)"
  have out: "\<forall>x. out = Some x \<longrightarrow> c_string x"
    using assms(3) Some by (auto simp: out_def c_string_def split: option.splits if_splits dest!: split_at_Some)
  have ok: "images_ok (filter (\<lambda>i. di_output i \<noteq> out) images)"
    using assms(2) by (auto simp: images_ok_def distinct_map inj_on_def)
  have "images' = remove_image out images \<or>
      (\<exists>p img. images' = \<lparr>di_path = p, di_output = out, di_surface = img\<rparr> # remove_image out images)"
    and "cfg'\<lparr>bg_path := bg_path cfg\<rparr> = cfg"
    using assms(1) Some
    by (auto simp: load_image_def Let_def out_def comp_simps split: option.splits prod.splits if_splits)
  moreover have "images_ok (\<lparr>di_path = p, di_output = out, di_surface = img\<rparr> # filter (\<lambda>i. di_output i \<noteq> out) images)"
    for p img
    using ok out by (simp add: images_ok_def) blast
  ultimately show ?thesis using ok remove_image_filter [OF assms(2) out] by auto
qed (use assms in \<open>auto simp: load_image_def\<close>)

lemma load_image_no_words:
  "bg_path cfg = Some raw \<Longrightarrow> CHR '':'' \<notin> set raw \<Longrightarrow> wordexp (escape_spaces raw) = Some [] \<Longrightarrow>
     load_image wordexp read_png cfg images = Fault"
  by (simp add: load_image_def split_at_None [THEN iffD2] join_args_def)

section \<open>Properties\<close>


definition demo_cfg :: cfg_t where
  "demo_cfg = (cfg_init cfg_zero)\<lparr>bg_path := Some ''DP-1:/home/me/lock screen.png'', c_overlay := 0x12345678, font_size := 4294967295\<rparr>"


text \<open>
  C30: lines that are empty, that start with the comment sign, that have no equals sign or no dot
  before it change nothing, and a line of the form namespace, dot, key, equals sign, value is the
  assignment of the value as it stands, further equals signs and dots included.
\<close>

theorem config_lines:
  assumes "line_text (ns @ CHR ''.'' # key @ CHR ''='' # v)"
    and "CHR ''.'' \<notin> set ns" "CHR ''='' \<notin> set ns" "CHR ''='' \<notin> set key" "first_char ns \<noteq> CHR ''#''"
    and "line_text junk" "CHR ''='' \<notin> set junk"
  shows "cfg_line einval (setting ns key v @ [newline]) c = cfg_set einval ns key v c \<and>
    cfg_line einval (CHR ''#'' # setting ns key v @ [newline]) c = c \<and>
    cfg_line einval [newline] c = c \<and> cfg_line einval (junk @ [newline]) c = c \<and>
    cfg_line einval (ns @ CHR ''='' # v @ [newline]) c = c"
proof -
  have ls: "line_string (CHR ''#'' # setting ns key v @ [newline]) = CHR ''#'' # setting ns key v"
    "line_string (ns @ CHR ''='' # v @ [newline]) = ns @ CHR ''='' # v"
    "line_string ([] @ [newline]) = []" "line_string (junk @ [newline]) = junk"
    using assms(1,6) line_string_newline [of "CHR ''#'' # setting ns key v"] line_string_newline [of "ns @ CHR ''='' # v"]
    using line_string_newline [of "[]"] line_string_newline [OF assms(6)]
    by (simp_all add: setting_def newline_eq)
  have "cfg_line einval (setting ns key v @ [newline]) c = cfg_set einval ns key v c"
    unfolding setting_def by (rule cfg_line_setting [OF assms(1-5)])
  moreover have "cfg_line einval (ns @ CHR ''='' # v @ [newline]) c = c"
    by (rule cfg_line_ignored) (use ls assms(2,3) in blast)
  moreover have "cfg_line einval (CHR ''#'' # setting ns key v @ [newline]) c = c"
    by (rule cfg_line_ignored) (simp add: ls first_char_def)
  moreover have "cfg_line einval ([] @ [newline]) c = c" "cfg_line einval (junk @ [newline]) c = c"
    by (rule cfg_line_ignored, use ls assms(7) in simp)+
  ultimately show ?thesis by simp
qed

theorem config_lines_witness:
  "cfg_line False (setting ''font'' ''family'' ''a=b.c'' @ [newline]) cfg_zero = cfg_zero\<lparr>font_family := ''a=b.c''\<rparr>"
  using config_lines [of "''font''" "''family''" "''a=b.c''" "''x''" False cfg_zero]
  by (simp add: newline_def first_char_def cfg_set_keys)

text \<open>
  C39: a color of eight hexadecimal digits is parsed digit for digit, printing and parsing are
  inverse, and every string that is not six or eight characters long leaves the color as it was.
\<close>

theorem color_parse:
  assumes "\<forall>c\<in>set s. is_hex c" "length s = 8" "length t \<noteq> 6" "length t \<noteq> 8"
  shows "color_from_string einval s fallback = word_of_nat (digits_value 16 s) \<and>
    unat (color_from_string einval s fallback) = digits_value 16 s \<and>
    color_from_string einval (print_08X w) fallback = w \<and> color_from_string einval t fallback = fallback"
proof -
  have "digits_value 16 s < 2 ^ 32" using color_of_hex(2) [of s] assms(1,2) by simp
  then have "unat (word_of_nat (digits_value 16 s) :: u32) = digits_value 16 s"
    by (simp add: unat_of_nat)
  then show ?thesis using color_of_hex(1) [OF assms(1)] assms color_print_parse
    by (simp add: color_from_string_def)
qed

theorem color_parse_witness: "color_from_string False ''ffDD00a0'' 7 = 0xFFDD00A0"
  using color_parse [of "''ffDD00a0''" "''''" False 7 0]
  by (simp add: is_hex_def digit_value_def digits_value_def)

text \<open>
  a color of six digits is not extended by an opaque alpha: its digits are the lower three
  bytes, so the blue digits become the alpha channel and the red channel is zero.
\<close>

theorem six_digit_colors_are_shifted:
  assumes "\<forall>c\<in>set s. is_hex c" "length s = 6"
  shows "color_from_string einval s fallback = word_of_nat (digits_value 16 s) \<and>
    unat (color_from_string einval s fallback) < 2 ^ 24 \<and>
    fst (set_source_u32 (color_from_string einval s fallback)) = 0"
proof -
  have d: "digits_value 16 s < 2 ^ 24" using color_of_hex(2) [of s] assms by simp
  then have "unat (word_of_nat (digits_value 16 s) :: u32) = digits_value 16 s"
    by (simp add: unat_of_nat)
  then show ?thesis using color_of_hex(1) [OF assms(1)] assms(2) d
    by (simp add: set_source_u32_def channel_byte)
qed

theorem six_digit_colors_are_shifted_witness:
  "color_from_string True ''ff0000'' 0 = 0x00FF0000"
  using six_digit_colors_are_shifted [of "''ff0000''" True 0]
  by (simp add: is_hex_def digit_value_def digits_value_def)

text \<open>
  the loop that escapes spaces ends, its result has no two spaces in a row, and it has only
  inserted backslashes.
\<close>

theorem escape_spaces_spec:
  "(\<nexists>x y. escape_spaces s = x @ CHR '' '' # CHR '' '' # y) \<and>
   filter (\<lambda>c. c \<noteq> CHR 0x5C) (escape_spaces s) = filter (\<lambda>c. c \<noteq> CHR 0x5C) s"
  using escape_spaces_no_gap gaps_iff escape_spaces_filter by blast

text \<open>
  C36: loading the image leaves at most one image for every output and one default image, and
  changes no other part of the configuration.
\<close>

theorem images_stay_unique:
  assumes "load_image wordexp read_png c images = Done (c', images')" "images_ok images"
    and "bg_path c = Some p" "c_string p"
  shows "distinct (map di_output images') \<and> c'\<lparr>bg_path := bg_path c\<rparr> = c"
  using load_image_result [OF assms(1,2)] assms(3,4) by (auto simp: images_ok_def)

theorem images_stay_unique_witness:
  "distinct (map di_output [\<lparr>di_path = ''b'', di_output = Some ''DP'', di_surface = \<lparr>im_width = 2, im_height = 1, im_opaque = True\<rparr>\<rparr>])"
proof -
  let ?img = "\<lparr>im_width = 2, im_height = 1, im_opaque = True\<rparr>"
  have "load_image (\<lambda>s. Some [s]) (\<lambda>s. Some (True, ?img)) (cfg_zero\<lparr>bg_path := Some ''DP:b''\<rparr>)
      [\<lparr>di_path = ''a'', di_output = Some ''DP'', di_surface = ?img\<rparr>] =
    Done (cfg_zero\<lparr>bg_path := Some ''DP''\<rparr>, [\<lparr>di_path = ''b'', di_output = Some ''DP'', di_surface = ?img\<rparr>])"
    by (simp add: load_image_def escape_spaces.simps join_args_def bg_load_image_def remove_image_def lenient_strcmp_def)
  from images_stay_unique [OF this] show ?thesis by (simp add: images_ok_def c_string_def)
qed

text \<open>
  a background path that the shell expands to no word, such as the empty value, makes the
  program join no words at all, which writes before the start of an empty allocation.
\<close>

theorem empty_background_path_faults:
  assumes "bg_path c = Some raw" "CHR '':'' \<notin> set raw" "wordexp (escape_spaces raw) = Some []"
  shows "load_image wordexp read_png c images = Fault"
  using assms by (rule load_image_no_words)

theorem empty_background_path_faults_witness:
  "load_image (\<lambda>s. Some (if s = [] then [] else [s])) (\<lambda>s. None)
     (cfg_parse False (''background.path='' @ [newline]) (cfg_init cfg_zero)) [] = Fault"
proof (rule empty_background_path_faults [where raw = "[]"])
  have "cfg_parse False (''background.path='' @ [newline]) (cfg_init cfg_zero) =
    cfg_set False ''background'' ''path'' [] (cfg_init cfg_zero)"
    using cfg_line_print [of "[]" "''background''" "''path''" False "cfg_init cfg_zero"]
      getlines_unlines [of "[''background.path='']"]
    by (simp add: cfg_parse_def setting_def newline_def first_char_def)
  then show "bg_path (cfg_parse False (''background.path='' @ [newline]) (cfg_init cfg_zero)) = Some []"
    by (simp add: cfg_set_keys)
qed (simp_all add: escape_spaces.simps)

end
