(* ===== verification/Results.thy ===== *)
theory Results
  imports Prelude
begin

text \<open>
  The result codes of \<^verbatim>\<open>src/result.h\<close>, in the order of the C enumeration, so that
  \<open>result_code\<close> is the integer each constant stands for.
\<close>

datatype result_t =
    OK | ERROR
  | ERR_CTX | ERR_CTX_ALLOCATION | ERR_CTX_CAIRO | ERR_CTX_NO_BUFFERS
  | ERR_AUTH | ERR_AUTH_PIPE | ERR_AUTH_FORK | ERR_AUTH_READ | ERR_AUTH_WRITE
  | ERR_AUTH_EOF | ERR_AUTH_INVALID
  | ERR_SBUF | ERR_SBUF_ALLOC | ERR_SBUF_LOCK
  | ERR_CLI | ERR_CLI_INVALID_OPTION
  | ERR_LOOP | ERR_LOOP_POLL
  | ERR_DAEMON | ERR_DAEMON_PIPE | ERR_DAEMON_HANDSHAKE

end
