(* ===== verification/Ctx.thy ===== *)
theory Ctx
  imports Results
begin

text \<open>
  \<^verbatim>\<open>src/ctx.c\<close>: the drawing contexts of a surface. \<open>ctx_t\<close> is the C struct; a handle of
  the compositor or of cairo is a flag that says whether it is non-null, the mapping is the
  number of bytes that are mapped. A pool is a list of three contexts. \<open>shm_env\<close> answers the
  n-th request made of the system and of cairo, and \<open>gfx\<close> counts those requests and the
  descriptors, mappings and handles that are live. The requests to the compositor cannot fail.
\<close>

section \<open>State and environment\<close>

datatype shm_ret = SHM_FD | SHM_EEXIST | SHM_FAIL

record shm_env =
  se_open :: "nat \<Rightarrow> shm_ret"
  se_truncate :: "nat \<Rightarrow> bool"
  se_mmap :: "nat \<Rightarrow> bool"
  se_cairo :: "nat \<Rightarrow> bool"

datatype mapping = NoMap | MapFailed | is_mapped: Mapped nat

record ctx_t =
  ctx_buffer :: bool
  ctx_surface :: bool
  ctx_cairo :: bool
  ctx_width :: u32
  ctx_height :: u32
  ctx_data :: mapping
  ctx_size :: nat
  ctx_busy :: bool

definition ctx_zero :: ctx_t where
  "ctx_zero = \<lparr>ctx_buffer = False, ctx_surface = False, ctx_cairo = False, ctx_width = 0,
     ctx_height = 0, ctx_data = NoMap, ctx_size = 0, ctx_busy = False\<rparr>"

record gfx =
  g_calls :: nat
  g_fds :: int
  g_maps :: int
  g_buffers :: int
  g_surfaces :: int
  g_cairos :: int

section \<open>Operations\<close>

text \<open>The loop tries again while the name is taken; the result is success and the calls made.\<close>

fun shm_open_loop :: "shm_env \<Rightarrow> nat \<Rightarrow> nat \<Rightarrow> bool \<times> nat" where
  "shm_open_loop E n 0 = (False, n)"
| "shm_open_loop E n (Suc retries) =
     (case se_open E n of
        SHM_FD \<Rightarrow> (True, Suc n)
      | SHM_EEXIST \<Rightarrow> shm_open_loop E (Suc n) retries
      | SHM_FAIL \<Rightarrow> (False, Suc n))"

definition anonymous_shm_open :: "shm_env \<Rightarrow> gfx \<Rightarrow> bool \<times> gfx" where
  "anonymous_shm_open E g =
     (let (ok, n) = shm_open_loop E (g_calls g) 100
      in (ok, g\<lparr>g_calls := n, g_fds := g_fds g + (if ok then 1 else 0)\<rparr>))"

definition buffer_release :: "ctx_t \<Rightarrow> ctx_t" where
  "buffer_release ctx = ctx\<lparr>ctx_busy := False\<rparr>"

definition ctx_destroy :: "gfx \<Rightarrow> ctx_t \<Rightarrow> ctx_t \<times> gfx" where
  "ctx_destroy g ctx =
     (ctx_zero,
      g\<lparr>g_buffers := g_buffers g - (if ctx_buffer ctx then 1 else 0),
        g_cairos := g_cairos g - (if ctx_cairo ctx then 1 else 0),
        g_surfaces := g_surfaces g - (if ctx_surface ctx then 1 else 0),
        g_maps := g_maps g - (if is_mapped (ctx_data ctx) then 1 else 0)\<rparr>)"

definition ctx_stride :: "int \<Rightarrow> u32" where
  "ctx_stride width = word_of_int width * 4"

definition ctx_bytes :: "int \<Rightarrow> int \<Rightarrow> nat" where
  "ctx_bytes width height = unat (ctx_stride width * word_of_int height)"

text \<open>The second half of \<^verbatim>\<open>ctx_create\<close>: the cairo surface over the mapping.\<close>

definition ctx_create_cairo ::
  "shm_env \<Rightarrow> gfx \<Rightarrow> int \<Rightarrow> int \<Rightarrow> nat \<Rightarrow> mapping \<Rightarrow> ctx_t \<Rightarrow> result_t \<times> ctx_t \<times> gfx" where
  "ctx_create_cairo E g width height sz data ctx =
     (let ctx1 = ctx\<lparr>ctx_size := sz, ctx_width := word_of_int width, ctx_height := word_of_int height,
                     ctx_data := data, ctx_surface := True\<rparr>;
          ok = se_cairo E (g_calls g);
          g1 = g\<lparr>g_calls := g_calls g + 1, g_surfaces := g_surfaces g + 1\<rparr>
      in if \<not> ok then (ERR_CTX_CAIRO, ctx1, g1)
         else (OK, ctx1\<lparr>ctx_cairo := True\<rparr>, g1\<lparr>g_cairos := g_cairos g1 + 1\<rparr>))"

definition ctx_create ::
  "shm_env \<Rightarrow> gfx \<Rightarrow> int \<Rightarrow> int \<Rightarrow> ctx_t \<Rightarrow> (result_t \<times> ctx_t \<times> gfx) comp" where
  "ctx_create E g width height ctx =
     (if width < 0 \<or> height < 0 then Fault
      else let sz = ctx_bytes width height in
      if 0 < sz then
        (let (ok, g1) = anonymous_shm_open E g in
         if \<not> ok then Done (ERR_CTX_ALLOCATION, ctx, g1)
         else let g2 = g1\<lparr>g_calls := g_calls g1 + 1\<rparr> in
         if \<not> se_truncate E (g_calls g1) then Done (ERR_CTX_ALLOCATION, ctx, g2\<lparr>g_fds := g_fds g2 - 1\<rparr>)
         else let mapped = se_mmap E (g_calls g2);
                  data = (if mapped then Mapped sz else MapFailed);
                  g3 = g2\<lparr>g_calls := g_calls g2 + 1, g_maps := g_maps g2 + (if mapped then 1 else 0),
                          g_buffers := g_buffers g2 + 1, g_fds := g_fds g2 - 1\<rparr>
              in Done (ctx_create_cairo E g3 width height sz data (ctx\<lparr>ctx_buffer := True\<rparr>)))
      else Done (ctx_create_cairo E g width height 0 NoMap ctx))"

text \<open>
  The getters return the index of the context in the pool, \<open>None\<close> for the null pointer. The
  sizes are converted to \<^verbatim>\<open>int32_t\<close> on the way to \<^verbatim>\<open>ctx_create\<close>.
\<close>

definition ctx_get_background ::
  "shm_env \<Rightarrow> gfx \<Rightarrow> u32 \<Rightarrow> u32 \<Rightarrow> ctx_t list \<Rightarrow> (result_t \<times> nat option \<times> ctx_t list \<times> gfx) comp" where
  "ctx_get_background E g width height pool =
     (case pool of
        background # rest \<Rightarrow>
          (if ctx_width background \<noteq> width \<or> ctx_height background \<noteq> height then
             (let (bg1, g1) = ctx_destroy g background in
              cbind (ctx_create E g1 (sint width) (sint height) bg1)
                (\<lambda>(res, bg2, g2).
                  if res \<noteq> OK then Done (res, None, bg2 # rest, g2)
                  else Done (OK, Some 0, bg2 # rest, g2)))
           else Done (OK, Some 0, pool, g))
      | [] \<Rightarrow> Fault)"

definition ctx_select :: "ctx_t list \<Rightarrow> nat option" where
  "ctx_select pool =
     (if ctx_busy (pool ! 1) then (if ctx_busy (pool ! 2) then None else Some 2) else Some 1)"

definition ctx_get_indicator ::
  "shm_env \<Rightarrow> gfx \<Rightarrow> u32 \<Rightarrow> u32 \<Rightarrow> ctx_t list \<Rightarrow> (result_t \<times> nat option \<times> ctx_t list \<times> gfx) comp" where
  "ctx_get_indicator E g width height pool =
     (if length pool \<noteq> 3 then Fault
      else case ctx_select pool of
        None \<Rightarrow> Done (ERR_CTX_NO_BUFFERS, None, pool, g)
      | Some i \<Rightarrow>
          (let (ctx1, g1) =
             (if ctx_width (pool ! i) \<noteq> width \<or> ctx_height (pool ! i) \<noteq> height
              then ctx_destroy g (pool ! i) else (pool ! i, g))
           in cbind (if \<not> ctx_buffer ctx1 then ctx_create E g1 (sint width) (sint height) ctx1
                     else Done (OK, ctx1, g1))
                (\<lambda>(res, ctx2, g2).
                  if res \<noteq> OK then Done (res, None, pool[i := ctx2], g2)
                  else Done (OK, Some i, pool[i := ctx2\<lparr>ctx_busy := True\<rparr>], g2))))"

fun ctx_deinit :: "gfx \<Rightarrow> ctx_t list \<Rightarrow> ctx_t list \<times> gfx" where
  "ctx_deinit g [] = ([], g)"
| "ctx_deinit g (ctx # pool) =
     (let (ctx1, g1) = ctx_destroy g ctx; (pool1, g2) = ctx_deinit g1 pool in (ctx1 # pool1, g2))"

section \<open>Resources\<close>

text \<open>The handles a context holds, and those that are live.\<close>

datatype handle = HBuffer | HSurface | HCairo | HMap

fun handles :: "handle \<Rightarrow> ctx_t \<Rightarrow> int" where
  "handles HBuffer ctx = (if ctx_buffer ctx then 1 else 0)"
| "handles HSurface ctx = (if ctx_surface ctx then 1 else 0)"
| "handles HCairo ctx = (if ctx_cairo ctx then 1 else 0)"
| "handles HMap ctx = (if is_mapped (ctx_data ctx) then 1 else 0)"

fun live_handles :: "handle \<Rightarrow> gfx \<Rightarrow> int" where
  "live_handles HBuffer g = g_buffers g"
| "live_handles HSurface g = g_surfaces g"
| "live_handles HCairo g = g_cairos g"
| "live_handles HMap g = g_maps g"

lemma shm_open_loop_calls: "shm_open_loop E n r = (ok, m) \<Longrightarrow> n \<le> m \<and> m \<le> n + r"
  by (induction E n r rule: shm_open_loop.induct) (auto split: shm_ret.splits)

lemma shm_open_loop_retries:
  "shm_open_loop E n r = (ok, m) \<Longrightarrow> ok \<longleftrightarrow>
     (\<exists>k<r. se_open E (n + k) = SHM_FD \<and> (\<forall>j<k. se_open E (n + j) = SHM_EEXIST))"
proof (induction E n r rule: shm_open_loop.induct)
  case (2 E n retries)
  let ?P = "\<lambda>n k. se_open E (n + k) = SHM_FD \<and> (\<forall>j<k. se_open E (n + j) = SHM_EEXIST)"
  have split: "(\<exists>k<Suc retries. ?P n k) \<longleftrightarrow>
      se_open E n = SHM_FD \<or> se_open E n = SHM_EEXIST \<and> (\<exists>k<retries. ?P (Suc n) k)"
    by (simp add: Ex_less_Suc2 All_less_Suc2) blast
  show ?case using 2 unfolding split by (auto split: shm_ret.splits)
qed auto

lemma ctx_destroy_frees:
  "ctx_destroy g ctx = (ctx', g') \<Longrightarrow>
     ctx' = ctx_zero \<and> live_handles k g' = live_handles k g - handles k ctx \<and> g_fds g' = g_fds g"
  by (cases k) (auto simp: ctx_destroy_def)

lemma handles_zero [simp]: "handles k ctx_zero = 0"
  by (cases k) (auto simp: ctx_zero_def)

lemma ctx_create_resources:
  assumes "ctx_create E g w h ctx = Done (res, ctx', g')"
    and "\<not> ctx_buffer ctx" "\<not> ctx_surface ctx" "\<not> ctx_cairo ctx" "ctx_data ctx = NoMap"
  shows "live_handles k g' = live_handles k g + handles k ctx' \<and> g_fds g' = g_fds g"
  using assms
  by (cases k) (auto simp: ctx_create_def ctx_create_cairo_def anonymous_shm_open_def Let_def
      split: if_splits prod.splits)

lemma ctx_create_cases:
  assumes "ctx_create E g w h ctx = Done (res, ctx', g')"
  shows "res \<in> {OK, ERR_CTX_ALLOCATION, ERR_CTX_CAIRO} \<and> (res = ERR_CTX_ALLOCATION \<longrightarrow> ctx' = ctx) \<and>
    (res \<noteq> ERR_CTX_ALLOCATION \<longrightarrow> ctx_surface ctx' \<and> ctx_width ctx' = word_of_int w \<and>
       ctx_height ctx' = word_of_int h \<and> ctx_size ctx' = ctx_bytes w h \<and> ctx_busy ctx' = ctx_busy ctx \<and>
       (ctx_cairo ctx' \<longleftrightarrow> ctx_cairo ctx \<or> res = OK) \<and>
       (ctx_buffer ctx' \<longleftrightarrow> ctx_buffer ctx \<or> 0 < ctx_bytes w h) \<and>
       ctx_data ctx' \<in> (if 0 < ctx_bytes w h then {Mapped (ctx_bytes w h), MapFailed} else {NoMap}))"
  using assms
  by (auto simp: ctx_create_def ctx_create_cairo_def anonymous_shm_open_def Let_def
      split: if_splits prod.splits)

section \<open>Contexts that can be drawn on\<close>

text \<open>Drawing writes a row of \<open>4 * width\<close> bytes for every line into the mapping.\<close>

definition ctx_drawable :: "ctx_t \<Rightarrow> bool" where
  "ctx_drawable ctx \<longleftrightarrow> ctx_cairo ctx \<and>
     (case ctx_data ctx of Mapped n \<Rightarrow> 4 * unat (ctx_width ctx) * unat (ctx_height ctx) \<le> n | _ \<Rightarrow> False)"

text \<open>Sizes for which the 32-bit computation of the buffer size does not wrap around.\<close>

definition dims_ok :: "u32 \<Rightarrow> u32 \<Rightarrow> bool" where
  "dims_ok w h \<longleftrightarrow> 0 < unat w \<and> 0 < unat h \<and> unat w < 2 ^ 31 \<and> unat h < 2 ^ 31 \<and> 4 * unat w * unat h < 2 ^ 32"

definition shm_env_ok :: "shm_env \<Rightarrow> bool" where
  "shm_env_ok E \<longleftrightarrow> (\<forall>n. se_mmap E n \<and> se_cairo E n)"

definition ctx_ok :: "ctx_t \<Rightarrow> bool" where
  "ctx_ok ctx \<longleftrightarrow> \<not> ctx_buffer ctx \<and> \<not> ctx_surface ctx \<and> \<not> ctx_cairo ctx \<and>
       ctx_width ctx = 0 \<and> ctx_height ctx = 0 \<and> ctx_data ctx = NoMap \<or>
     ctx_buffer ctx \<and> ctx_surface ctx \<and> ctx_drawable ctx"

definition pool_ok :: "ctx_t list \<Rightarrow> bool" where
  "pool_ok pool \<longleftrightarrow> length pool = 3 \<and> (\<forall>ctx\<in>set pool. ctx_ok ctx)"

definition pool_handles :: "handle \<Rightarrow> ctx_t list \<Rightarrow> int" where
  "pool_handles k pool = (\<Sum>ctx\<leftarrow>pool. handles k ctx)"

lemma sint_small: "unat (w :: u32) < 2147483648 \<Longrightarrow> sint w = int (unat w)"
proof -
  assume "unat w < 2147483648"
  moreover have "uint w = int (unat w)" by simp
  ultimately have "uint w < 2147483648" by linarith
  then have "uint w < 2 ^ 31" by simp
  moreover have "- (2 ^ 31) \<le> uint w" by (rule order_trans [of _ 0]) simp_all
  ultimately have "signed_take_bit 31 (uint w) = uint w" using signed_take_bit_int_eq_self by blast
  then show ?thesis by (simp add: sint_uint)
qed

lemma ctx_bytes_exact:
  assumes "dims_ok w h"
  shows "ctx_bytes (sint w) (sint h) = 4 * unat w * unat h" "0 \<le> sint w" "0 \<le> sint h"
proof -
  have "unat w \<le> unat h * unat w" using assms by (simp add: dims_ok_def)
  moreover have "unat h * unat w < 1073741824" using assms by (simp add: dims_ok_def mult.commute)
  ultimately have "unat w < 1073741824" by linarith
  then have "unat (w * 4) = unat w * 4" by (simp add: unat_word_ariths)
  then show "ctx_bytes (sint w) (sint h) = 4 * unat w * unat h"
    using assms by (simp add: ctx_bytes_def ctx_stride_def dims_ok_def unat_word_ariths)
qed (use assms in \<open>simp_all add: dims_ok_def sint_small\<close>)

section \<open>The pool\<close>

lemma ctx_ok_zero [simp]: "ctx_ok ctx_zero"
  by (simp add: ctx_ok_def ctx_zero_def)

lemma ctx_create_total:
  assumes "0 \<le> w" "0 \<le> h"
  obtains res ctx' g' where "ctx_create E g w h ctx = Done (res, ctx', g')"
proof -
  have "ctx_create E g w h ctx \<noteq> Fault" "ctx_create E g w h ctx \<noteq> Blocked"
    using assms by (simp_all add: ctx_create_def Let_def split: prod.splits)
  then show thesis using that by (cases "ctx_create E g w h ctx") auto
qed

lemma ctx_create_ok:
  assumes "dims_ok w h" "shm_env_ok E"
  shows "\<exists>res ctx' g'. ctx_create E g (sint w) (sint h) ctx_zero = Done (res, ctx', g') \<and>
    ctx_ok ctx' \<and> (if res = OK then ctx_buffer ctx' \<and> ctx_drawable ctx' \<and> ctx_width ctx' = w \<and> ctx_height ctx' = h
      else res = ERR_CTX_ALLOCATION \<and> ctx' = ctx_zero)"
proof -
  have b: "ctx_bytes (sint w) (sint h) = 4 * unat w * unat h" "0 \<le> sint w" "0 \<le> sint h"
    "0 < 4 * unat w * unat h"
    using ctx_bytes_exact [OF assms(1)] assms(1) by (simp_all add: dims_ok_def)
  obtain res ctx' g' where c: "ctx_create E g (sint w) (sint h) ctx_zero = Done (res, ctx', g')"
    using ctx_create_total b(2,3) by blast
  have "res \<noteq> ERR_CTX_CAIRO" "ctx_data ctx' \<noteq> MapFailed"
    using c b(4) assms(2)
    by (auto simp: b ctx_create_def ctx_create_cairo_def shm_env_ok_def Let_def ctx_zero_def
        split: prod.splits if_splits)
  then show ?thesis using ctx_create_cases [OF c] c b
    by (auto simp: ctx_ok_def ctx_drawable_def ctx_zero_def)
qed

text \<open>With sizes that fit, the background context is drawable and the others are untouched.\<close>

lemma ctx_get_background_ok:
  assumes "pool_ok pool" "dims_ok w h" "shm_env_ok E"
  shows "\<exists>res i pool' g'. ctx_get_background E g w h pool = Done (res, i, pool', g') \<and> pool_ok pool' \<and>
    tl pool' = tl pool \<and> res \<in> {OK, ERR_CTX_ALLOCATION} \<and>
    (res = OK \<longrightarrow> i = Some 0 \<and> ctx_drawable (pool' ! 0) \<and> ctx_width (pool' ! 0) = w \<and> ctx_height (pool' ! 0) = h)"
proof -
  obtain bg rest where p: "pool = bg # rest" "ctx_ok bg" "length rest = 2" "\<forall>c\<in>set rest. ctx_ok c"
    using assms(1) by (cases pool) (auto simp: pool_ok_def)
  show ?thesis
  proof (cases "ctx_width bg \<noteq> w \<or> ctx_height bg \<noteq> h")
    case True
    obtain g1 where d: "ctx_destroy g bg = (ctx_zero, g1)" by (simp add: ctx_destroy_def)
    obtain res ctx' g' where c: "ctx_create E g1 (sint w) (sint h) ctx_zero = Done (res, ctx', g')" "ctx_ok ctx'"
      "if res = OK then ctx_buffer ctx' \<and> ctx_drawable ctx' \<and> ctx_width ctx' = w \<and> ctx_height ctx' = h
      else res = ERR_CTX_ALLOCATION \<and> ctx' = ctx_zero"
      using ctx_create_ok [OF assms(2,3)] by blast
    then show ?thesis using True p d by (auto simp: ctx_get_background_def pool_ok_def)
  next
    case False
    have "w \<noteq> 0" using assms(2) by (auto simp: dims_ok_def)
    then have "ctx_drawable bg" using False p(2) by (auto simp: ctx_ok_def ctx_zero_def)
    then show ?thesis using False p assms(1) by (auto simp: ctx_get_background_def pool_ok_def)
  qed
qed

lemma ctx_select_free:
  "ctx_select pool = Some i \<Longrightarrow> i \<in> {1, 2} \<and> \<not> ctx_busy (pool ! i)"
  by (auto simp: ctx_select_def split: if_splits)

text \<open>An indicator context is handed out only while the compositor does not hold it.\<close>

lemma ctx_get_indicator_result:
  assumes "ctx_get_indicator E g w h pool = Done (res, r, pool', g')"
  shows "(res = OK \<longleftrightarrow> r \<noteq> None) \<and> length pool' = 3 \<and>
    (res = ERR_CTX_NO_BUFFERS \<longleftrightarrow> ctx_busy (pool ! 1) \<and> ctx_busy (pool ! 2)) \<and>
    (\<forall>i. r = Some i \<longrightarrow> i \<in> {1, 2} \<and> \<not> ctx_busy (pool ! i) \<and> ctx_busy (pool' ! i) \<and>
       (\<forall>j. j \<noteq> i \<longrightarrow> pool' ! j = pool ! j))"
proof -
  have len: "length pool = 3" using assms by (auto simp: ctx_get_indicator_def split: if_splits)
  show ?thesis
  proof (cases "ctx_select pool")
    case None
    then show ?thesis using assms len
      by (auto simp: ctx_get_indicator_def ctx_select_def split: if_splits)
  next
    case (Some i)
    obtain ctx1 g1 where 1: "(if ctx_width (pool ! i) \<noteq> w \<or> ctx_height (pool ! i) \<noteq> h
              then ctx_destroy g (pool ! i) else (pool ! i, g)) = (ctx1, g1)" by fastforce
    let ?c = "if \<not> ctx_buffer ctx1 then ctx_create E g1 (sint w) (sint h) ctx1 else Done (OK, ctx1, g1)"
    obtain ctx2 where 2: "?c = Done (res, ctx2, g')" "r = (if res = OK then Some i else None)"
      "pool' = pool[i := if res = OK then ctx2\<lparr>ctx_busy := True\<rparr> else ctx2]"
      using assms len Some 1
      by (auto simp: ctx_get_indicator_def comp_simps simp del: if_split_asm split del: if_split
          split: if_splits prod.splits)
    have "res \<noteq> ERR_CTX_NO_BUFFERS" using 2(1) ctx_create_cases [of E g1 "sint w" "sint h" ctx1 res ctx2 g'] by (auto split: if_splits)
    moreover have "\<not> (ctx_busy (pool ! 1) \<and> ctx_busy (pool ! 2))"
      using Some by (auto simp: ctx_select_def)
    ultimately show ?thesis using 2(2,3) ctx_select_free [OF Some] len by (auto split: if_splits)
  qed
qed

lemma ctx_get_indicator_ok:
  assumes "pool_ok pool" "dims_ok w h" "shm_env_ok E"
  shows "\<exists>res r pool' g'. ctx_get_indicator E g w h pool = Done (res, r, pool', g') \<and> pool_ok pool' \<and>
    res \<in> {OK, ERR_CTX_ALLOCATION, ERR_CTX_NO_BUFFERS} \<and>
    (\<forall>i. r = Some i \<longrightarrow> i < 3 \<and> ctx_drawable (pool' ! i) \<and> ctx_width (pool' ! i) = w \<and> ctx_height (pool' ! i) = h)"
proof (cases "ctx_select pool")
  case None
  then show ?thesis using assms(1) by (simp add: ctx_get_indicator_def pool_ok_def)
next
  case (Some i)
  have i: "i < 3" "length pool = 3" "ctx_ok (pool ! i)"
    using ctx_select_free [OF Some] assms(1) by (auto simp: pool_ok_def)
  have put: "pool_ok (pool[i := c])" if "ctx_ok c" for c
    using that assms(1) set_update_subset_insert [of pool i c] by (auto simp: pool_ok_def)
  have w: "w \<noteq> 0" using assms(2) by (auto simp: dims_ok_def)
  show ?thesis
  proof (cases "ctx_buffer (pool ! i) \<and> ctx_width (pool ! i) = w \<and> ctx_height (pool ! i) = h")
    case True
    then have d: "ctx_drawable (pool ! i)" using i(3) w by (auto simp: ctx_ok_def ctx_zero_def)
    then have "ctx_ok ((pool ! i)\<lparr>ctx_busy := True\<rparr>)" "ctx_drawable ((pool ! i)\<lparr>ctx_busy := True\<rparr>)"
      using True i(3) by (auto simp: ctx_ok_def ctx_drawable_def split: mapping.splits)
    then show ?thesis using True Some i put by (simp add: ctx_get_indicator_def)
  next
    case False
    have ne: "\<not> (ctx_width (pool ! i) = w \<and> ctx_height (pool ! i) = h)"
      using False i(3) w by (auto simp: ctx_ok_def)
    obtain g1 where d: "ctx_destroy g (pool ! i) = (ctx_zero, g1)" by (simp add: ctx_destroy_def)
    have z: "\<not> ctx_buffer ctx_zero" by (simp add: ctx_zero_def)
    obtain res ctx' g' where c: "ctx_create E g1 (sint w) (sint h) ctx_zero = Done (res, ctx', g')" "ctx_ok ctx'"
      "if res = OK then ctx_buffer ctx' \<and> ctx_drawable ctx' \<and> ctx_width ctx' = w \<and> ctx_height ctx' = h
      else res = ERR_CTX_ALLOCATION \<and> ctx' = ctx_zero"
      using ctx_create_ok [OF assms(2,3)] by blast
    have b: "ctx_ok (ctx'\<lparr>ctx_busy := True\<rparr>)" "ctx_drawable (ctx'\<lparr>ctx_busy := True\<rparr>) = ctx_drawable ctx'"
      using c(2) by (auto simp: ctx_ok_def ctx_drawable_def split: mapping.splits)
    show ?thesis
    proof (cases "res = OK")
      case True
      then have "ctx_get_indicator E g w h pool = Done (OK, Some i, pool[i := ctx'\<lparr>ctx_busy := True\<rparr>], g')"
        using Some i c(1) z ne by (simp add: ctx_get_indicator_def d)
      then show ?thesis using put [OF b(1)] b(2) c(3) True i by simp
    next
      case fail: False
      then have "ctx_get_indicator E g w h pool = Done (res, None, pool[i := ctx'], g')"
        using Some i c(1) z ne by (simp add: ctx_get_indicator_def d)
      then show ?thesis using put [OF c(2)] c(3) fail by simp
    qed
  qed
qed

section \<open>Nothing leaks\<close>

lemma pool_handles_update:
  "i < length pool \<Longrightarrow> pool_handles k (pool[i := c]) = pool_handles k pool - handles k (pool ! i) + handles k c"
proof -
  assume i: "i < length pool"
  have "pool_handles k (pool[i := c]) = pool_handles k (take i pool) + handles k c + pool_handles k (drop (Suc i) pool)"
    using i by (simp add: pool_handles_def upd_conv_take_nth_drop)
  moreover have "pool_handles k pool = pool_handles k (take i pool @ pool ! i # drop (Suc i) pool)"
    using i by (simp add: id_take_nth_drop [symmetric])
  ultimately show ?thesis by (simp add: pool_handles_def)
qed

lemma ctx_deinit_frees:
  "ctx_deinit g pool = (pool', g') \<Longrightarrow>
     live_handles k g' = live_handles k g - pool_handles k pool \<and> pool_handles k pool' = 0 \<and> g_fds g' = g_fds g"
proof (induction pool arbitrary: g pool')
  case (Cons ctx pool)
  obtain ctx1 g1 where 1: "ctx_destroy g ctx = (ctx1, g1)" by fastforce
  obtain pool1 where 2: "ctx_deinit g1 pool = (pool1, g')" "pool' = ctx1 # pool1"
    using Cons.prems 1 by (auto split: prod.splits)
  show ?case using ctx_destroy_frees [OF 1, of k] Cons.IH [OF 2(1)] 2(2) by (simp add: pool_handles_def)
qed (auto simp: pool_handles_def)

lemma ctx_get_background_resources:
  assumes "ctx_get_background E g w h pool = Done (res, i, pool', g')"
  shows "live_handles k g' - pool_handles k pool' = live_handles k g - pool_handles k pool \<and> g_fds g' = g_fds g"
proof (cases "\<exists>bg rest. pool = bg # rest \<and> (ctx_width bg \<noteq> w \<or> ctx_height bg \<noteq> h)")
  case True
  then obtain bg rest where p: "pool = bg # rest" "ctx_width bg \<noteq> w \<or> ctx_height bg \<noteq> h" by blast
  obtain g1 where d: "ctx_destroy g bg = (ctx_zero, g1)" by (simp add: ctx_destroy_def)
  obtain bg2 where c: "ctx_create E g1 (sint w) (sint h) ctx_zero = Done (res, bg2, g')" "pool' = bg2 # rest"
    using assms p d by (auto simp: ctx_get_background_def comp_simps split: if_splits)
  show ?thesis using ctx_destroy_frees [OF d, of k] ctx_create_resources [OF c(1), of k] c(2) p(1)
    by (simp add: pool_handles_def) (simp add: ctx_zero_def)
next
  case False
  then show ?thesis using assms by (auto simp: ctx_get_background_def split: list.splits)
qed

lemma handles_busy [simp]: "handles k (ctx\<lparr>ctx_busy := b\<rparr>) = handles k ctx"
  by (cases k) auto

lemma ctx_get_indicator_resources:
  assumes "ctx_get_indicator E g w h pool = Done (res, r, pool', g')" "pool_ok pool"
  shows "live_handles k g' - pool_handles k pool' = live_handles k g - pool_handles k pool \<and> g_fds g' = g_fds g"
proof (cases "ctx_select pool")
  case None
  then show ?thesis using assms by (auto simp: ctx_get_indicator_def pool_ok_def)
next
  case (Some i)
  have i: "i < length pool" "length pool = 3" "ctx_ok (pool ! i)"
    using ctx_select_free [OF Some] assms(2) by (auto simp: pool_ok_def)
  obtain ctx1 g1 where 1: "(if ctx_width (pool ! i) \<noteq> w \<or> ctx_height (pool ! i) \<noteq> h
            then ctx_destroy g (pool ! i) else (pool ! i, g)) = (ctx1, g1)" by fastforce
  have l1: "live_handles k g1 - handles k ctx1 = live_handles k g - handles k (pool ! i)" "g_fds g1 = g_fds g"
    using 1 ctx_destroy_frees [of g "pool ! i" ctx1 g1 k] by (auto split: if_splits)
  have e: "ctx1 = ctx_zero \<or> ctx1 = pool ! i" using 1 by (auto simp: ctx_destroy_def split: if_splits)
  let ?c = "if \<not> ctx_buffer ctx1 then ctx_create E g1 (sint w) (sint h) ctx1 else Done (OK, ctx1, g1)"
  obtain ctx2 where 2: "?c = Done (res, ctx2, g')"
    "pool' = pool[i := if res = OK then ctx2\<lparr>ctx_busy := True\<rparr> else ctx2]"
    using assms(1) i Some 1
    by (auto simp: ctx_get_indicator_def comp_simps simp del: if_split_asm split del: if_split
        split: if_splits prod.splits)
  have "live_handles k g' - handles k ctx2 = live_handles k g1 - handles k ctx1 \<and> g_fds g' = g_fds g1"
  proof (cases "ctx_buffer ctx1")
    case False
    have h: "handles k ctx1 = 0" using e i(3) False by (cases k) (auto simp: ctx_ok_def ctx_zero_def)
    have "ctx_ok ctx1" using e i(3) by auto
    with False have "ctx_data ctx1 = NoMap" "\<not> ctx_surface ctx1" "\<not> ctx_cairo ctx1" by (simp_all add: ctx_ok_def)
    then have "live_handles k g' = live_handles k g1 + handles k ctx2 \<and> g_fds g' = g_fds g1"
      using 2(1) False ctx_create_resources [of E g1 "sint w" "sint h" ctx1 res ctx2 g' k] by simp
    with h show ?thesis by simp
  qed (use 2 in auto)
  then show ?thesis using 2(2) l1 pool_handles_update [OF i(1), of k] by auto
qed

section \<open>Properties\<close>

definition demo_shm :: shm_env where
  "demo_shm = \<lparr>se_open = (\<lambda>n. if n < 3 then SHM_EEXIST else SHM_FD), se_truncate = (\<lambda>n. True),
     se_mmap = (\<lambda>n. True), se_cairo = (\<lambda>n. True)\<rparr>"

definition demo_gfx :: gfx where
  "demo_gfx = \<lparr>g_calls = 0, g_fds = 0, g_maps = 0, g_buffers = 0, g_surfaces = 0, g_cairos = 0\<rparr>"

definition demo_pool :: "ctx_t list" where
  "demo_pool = replicate 3 ctx_zero"

lemma demo_pool_ok: "pool_ok demo_pool"
  by (simp add: pool_ok_def demo_pool_def)

lemma demo_shm_ok: "shm_env_ok demo_shm"
  by (simp add: shm_env_ok_def demo_shm_def)

lemma demo_dims_ok: "dims_ok 4 2"
  by (simp add: dims_ok_def)

text \<open>
  C23: double buffering: an indicator context is handed out only if the compositor does not hold
  it, it is one of the two indicator contexts, it is then marked as held, and the other contexts
  are not touched; the request fails for lack of a buffer exactly when both are held.
\<close>

theorem indicator_never_busy:
  assumes "ctx_get_indicator E g w h pool = Done (res, r, pool', g')"
  shows "(res = OK) = (r \<noteq> None) \<and>
    (res = ERR_CTX_NO_BUFFERS) = (ctx_busy (pool ! 1) \<and> ctx_busy (pool ! 2)) \<and>
    (\<forall>i. r = Some i \<longrightarrow> i \<in> {1, 2} \<and> \<not> ctx_busy (pool ! i) \<and> ctx_busy (pool' ! i) \<and>
       (\<forall>j. j \<noteq> i \<longrightarrow> pool' ! j = pool ! j))"
  using ctx_get_indicator_result [OF assms] by blast

definition demo_ctx :: ctx_t where
  "demo_ctx = \<lparr>ctx_buffer = True, ctx_surface = True, ctx_cairo = True, ctx_width = 4, ctx_height = 2,
     ctx_data = Mapped 32, ctx_size = 32, ctx_busy = True\<rparr>"

definition demo_gfx1 :: gfx where
  "demo_gfx1 = \<lparr>g_calls = 7, g_fds = 0, g_maps = 1, g_buffers = 1, g_surfaces = 1, g_cairos = 1\<rparr>"

lemma demo_indicator:
  "ctx_get_indicator demo_shm demo_gfx 4 2 demo_pool =
     Done (OK, Some 1, [ctx_zero, demo_ctx, ctx_zero], demo_gfx1)"
  by code_simp

lemma demo_background:
  "ctx_get_background demo_shm demo_gfx 4 2 demo_pool =
     Done (OK, Some 0, [demo_ctx\<lparr>ctx_busy := False\<rparr>, ctx_zero, ctx_zero], demo_gfx1)"
  by code_simp

theorem indicator_never_busy_witness:
  "\<not> ctx_busy (demo_pool ! 1) \<and> ctx_busy ([ctx_zero, demo_ctx, ctx_zero] ! 1)"
  using indicator_never_busy [OF demo_indicator] by simp






text \<open>
  after cairo has refused a background context the next request for the same size reports
  success and hands out a context without a cairo object.
\<close>

theorem background_after_cairo_error:
  assumes "ctx_get_background E g w h pool = Done (ERR_CTX_CAIRO, r, pool', g')" "pool \<noteq> []"
  shows "ctx_get_background E g' w h pool' = Done (OK, Some 0, pool', g') \<and> \<not> ctx_cairo (pool' ! 0)"
proof -
  obtain bg rest where p: "pool = bg # rest" using assms(2) by (cases pool) auto
  have ne: "ctx_width bg \<noteq> w \<or> ctx_height bg \<noteq> h"
    using assms(1) p by (auto simp: ctx_get_background_def split: if_splits)
  obtain g1 where d: "ctx_destroy g bg = (ctx_zero, g1)" by (simp add: ctx_destroy_def)
  obtain bg2 where c: "ctx_create E g1 (sint w) (sint h) ctx_zero = Done (ERR_CTX_CAIRO, bg2, g')" "pool' = bg2 # rest"
    using assms(1) p ne d by (auto simp: ctx_get_background_def comp_simps split: if_splits)
  have "ctx_width bg2 = w" "ctx_height bg2 = h" "\<not> ctx_cairo bg2"
    using ctx_create_cases [OF c(1)] by (simp_all add: ctx_zero_def)
  then show ?thesis using c(2) by (simp add: ctx_get_background_def)
qed

theorem background_after_cairo_error_witness:
  "ctx_get_background (demo_shm\<lparr>se_cairo := (\<lambda>n. False)\<rparr>) (demo_gfx1\<lparr>g_cairos := 0\<rparr>) 4 2
     [demo_ctx\<lparr>ctx_busy := False, ctx_cairo := False\<rparr>, ctx_zero, ctx_zero] =
   Done (OK, Some 0, [demo_ctx\<lparr>ctx_busy := False, ctx_cairo := False\<rparr>, ctx_zero, ctx_zero], demo_gfx1\<lparr>g_cairos := 0\<rparr>)"
proof -
  have "ctx_get_background (demo_shm\<lparr>se_cairo := (\<lambda>n. False)\<rparr>) demo_gfx 4 2 demo_pool =
    Done (ERR_CTX_CAIRO, None, [demo_ctx\<lparr>ctx_busy := False, ctx_cairo := False\<rparr>, ctx_zero, ctx_zero],
      demo_gfx1\<lparr>g_cairos := 0\<rparr>)" by code_simp
  from background_after_cairo_error [OF this] show ?thesis by (simp add: demo_pool_def)
qed

end
