(* ===== verification/Eventloop.thy ===== *)
theory Eventloop
  imports Results
begin

text \<open>
  \<^verbatim>\<open>src/loop.c\<close>: the poll loop with its file descriptors and timers. A callback with
  its data pointer is a value of a type parameter (\<open>'f\<close> for descriptors, \<open>'cb\<close> for
  timers), and \<open>run\<close> interprets it on the state of the program, of which the loop is a
  part (\<open>lp\<close> reads it, \<open>upd\<close> updates it). A timer is a heap cell with an address; the
  linked lists are lists in their order. \<open>loop_env\<close> answers the n-th allocation request,
  knowing the addresses in use, and the n-th reading of the monotonic clock; \<open>calls\<close> counts
  the requests of the loop.
\<close>

section \<open>Time\<close>

datatype timespec = Timespec (tv_sec: int) (tv_nsec: int)

instantiation timespec :: linorder
begin

definition less_eq_timespec :: "timespec \<Rightarrow> timespec \<Rightarrow> bool" where
  "less_eq_timespec a b \<longleftrightarrow> tv_sec a < tv_sec b \<or> tv_sec a = tv_sec b \<and> tv_nsec a \<le> tv_nsec b"

definition less_timespec :: "timespec \<Rightarrow> timespec \<Rightarrow> bool" where
  "less_timespec a b \<longleftrightarrow> tv_sec a < tv_sec b \<or> tv_sec a = tv_sec b \<and> tv_nsec a < tv_nsec b"

instance
proof
  fix a b c :: timespec
  show "a < b \<longleftrightarrow> a \<le> b \<and> \<not> b \<le> a"
    by (auto simp: less_eq_timespec_def less_timespec_def)
  show "a \<le> a" by (simp add: less_eq_timespec_def)
  show "a \<le> b \<Longrightarrow> b \<le> c \<Longrightarrow> a \<le> c" by (auto simp: less_eq_timespec_def)
  show "a \<le> b \<Longrightarrow> b \<le> a \<Longrightarrow> a = b"
    by (auto simp: less_eq_timespec_def intro: timespec.expand)
  show "a \<le> b \<or> b \<le> a" by (auto simp: less_eq_timespec_def)
qed

end

definition nsec_per_sec :: int where
  "nsec_per_sec = 1000000000"

definition timespec_ok :: "timespec \<Rightarrow> bool" where
  "timespec_ok t \<longleftrightarrow> 0 \<le> tv_nsec t \<and> tv_nsec t < nsec_per_sec"

definition timespec_ns :: "timespec \<Rightarrow> int" where
  "timespec_ns t = tv_sec t * nsec_per_sec + tv_nsec t"

section \<open>State and environment\<close>

type_synonym mask = "16 word"

definition POLLIN :: mask where "POLLIN = 1"
definition POLLERR :: mask where "POLLERR = 8"
definition POLLHUP :: mask where "POLLHUP = 16"

record pollfd =
  pfd_fd :: int
  pfd_events :: mask
  pfd_revents :: mask

record 'cb loop_timer =
  t_addr :: nat
  t_callback :: 'cb
  t_expiry :: timespec
  t_removed :: bool

record ('f, 'cb) loop_t =
  fds :: "pollfd list"
  fd_length :: nat
  fd_capacity :: nat
  fd_events :: "'f list"
  timers :: "'cb loop_timer list"
  calls :: nat

record loop_env =
  le_calloc :: "nat \<Rightarrow> nat set \<Rightarrow> nat option"
  le_clock :: "nat \<Rightarrow> timespec"

text \<open>
  What the code relies on: an allocation does not return an address in use, and the clock
  returns normalised times.
\<close>

definition loop_env_ok :: "loop_env \<Rightarrow> bool" where
  "loop_env_ok E \<longleftrightarrow> (\<forall>n A a. finite A \<longrightarrow> le_calloc E n A = Some a \<longrightarrow> a \<notin> A) \<and> (\<forall>n. timespec_ok (le_clock E n))"

section \<open>Operations on the registrations\<close>

text \<open>An uninitialised \<^verbatim>\<open>pollfd\<close>; only entries below \<open>fd_length\<close> are ever read.\<close>

definition pollfd_undef :: pollfd where
  "pollfd_undef = \<lparr>pfd_fd = - 1, pfd_events = 0, pfd_revents = 0\<rparr>"

text \<open>
  The boolean arguments say whether the allocations succeed: that of the loop or the event, and
  that of the descriptor array, whose result the code does not check (an array of no entries
  is the null pointer, and any access to it is a fault).
\<close>

definition loop_create :: "bool \<Rightarrow> bool \<Rightarrow> ('f, 'cb) loop_t option" where
  "loop_create calloc_ok malloc_ok =
     (if \<not> calloc_ok then None
      else Some \<lparr>fds = (if malloc_ok then replicate 10 pollfd_undef else []), fd_length = 0,
                 fd_capacity = 10, fd_events = [], timers = [], calls = 0\<rparr>)"

definition loop_add_fd ::
  "bool \<Rightarrow> bool \<Rightarrow> ('f, 'cb) loop_t \<Rightarrow> int \<Rightarrow> mask \<Rightarrow> 'f \<Rightarrow> ('f, 'cb) loop_t comp" where
  "loop_add_fd event_ok realloc_ok loop fd m cb =
     (if \<not> event_ok then Done loop
      else let loop1 = loop\<lparr>fd_events := fd_events loop @ [cb]\<rparr>;
               pfd = \<lparr>pfd_fd = fd, pfd_events = m, pfd_revents = 0\<rparr>;
               loop2 = (if fd_length loop1 = fd_capacity loop1
                        then loop1\<lparr>fd_capacity := fd_capacity loop1 + 10,
                                   fds := (if realloc_ok then fds loop1 @ replicate 10 pollfd_undef else [])\<rparr>
                        else loop1)
           in cbind (buf_write (fds loop2) (fd_length loop2) pfd)
                (\<lambda>fs. Done (loop2\<lparr>fds := fs, fd_length := fd_length loop2 + 1\<rparr>)))"

fun loop_find_fd :: "pollfd list \<Rightarrow> nat \<Rightarrow> nat \<Rightarrow> int \<Rightarrow> nat option comp" where
  "loop_find_fd fs i 0 fd = Done None"
| "loop_find_fd fs i (Suc n) fd =
     (if i < length fs then
        (if pfd_fd (fs ! i) = fd then Done (Some i) else loop_find_fd fs (Suc i) n fd)
      else Fault)"

definition loop_remove_fd :: "('f, 'cb) loop_t \<Rightarrow> int \<Rightarrow> (bool \<times> ('f, 'cb) loop_t) comp" where
  "loop_remove_fd loop fd =
     cbind (loop_find_fd (fds loop) 0 (length (fd_events loop)) fd)
       (\<lambda>r. case r of
          None \<Rightarrow> Done (False, loop)
        | Some i \<Rightarrow>
            (let n = fd_length loop - 1 in
             cbind (buf_read (fds loop) (i + 1) (n - i))
               (\<lambda>moved. Done (True,
                  loop\<lparr>fd_events := take i (fd_events loop) @ drop (Suc i) (fd_events loop),
                       fd_length := n,
                       fds := take i (fds loop) @ moved @ drop n (fds loop)\<rparr>))))"

definition timer_expiry :: "timespec \<Rightarrow> int \<Rightarrow> timespec" where
  "timer_expiry now ms =
     (let sec = tv_sec now + ms sdiv 1000;
          nsec = (ms smod 1000) * 1000000
      in if tv_nsec now + nsec \<ge> nsec_per_sec
         then Timespec (sec + 1) (tv_nsec now + (nsec - nsec_per_sec))
         else Timespec sec (tv_nsec now + nsec))"

definition timer_addrs :: "('f, 'cb) loop_t \<Rightarrow> nat set" where
  "timer_addrs loop = t_addr ` set (timers loop)"

definition loop_add_timer ::
  "loop_env \<Rightarrow> ('f, 'cb) loop_t \<Rightarrow> int \<Rightarrow> 'cb \<Rightarrow> nat option \<times> ('f, 'cb) loop_t" where
  "loop_add_timer E loop ms cb =
     (case le_calloc E (calls loop) (timer_addrs loop) of
        None \<Rightarrow> (None, loop\<lparr>calls := calls loop + 1\<rparr>)
      | Some a \<Rightarrow>
          (Some a,
           loop\<lparr>timers :=
                  \<lparr>t_addr = a, t_callback = cb,
                   t_expiry = timer_expiry (le_clock E (calls loop + 1)) ms,
                   t_removed = False\<rparr> # timers loop,
                calls := calls loop + 2\<rparr>))"

fun mark_removed :: "'cb loop_timer list \<Rightarrow> nat \<Rightarrow> bool \<times> 'cb loop_timer list" where
  "mark_removed [] a = (False, [])"
| "mark_removed (t # ts) a =
     (if t_addr t = a then (True, t\<lparr>t_removed := True\<rparr> # ts)
      else (let (r, ts') = mark_removed ts a in (r, t # ts')))"

definition loop_remove_timer :: "('f, 'cb) loop_t \<Rightarrow> nat \<Rightarrow> bool \<times> ('f, 'cb) loop_t" where
  "loop_remove_timer loop a =
     (let (r, ts) = mark_removed (timers loop) a in (r, loop\<lparr>timers := ts\<rparr>))"

text \<open>
  Releasing a loop: \<open>freed\<close> are the timers already given back to the allocator, and giving one
  back again is a fault. The cells of the descriptor events are not addressed in the model; each
  is freed once.
\<close>

definition free_cell :: "nat \<Rightarrow> nat set \<Rightarrow> nat set comp" where
  "free_cell a freed = (if a \<in> freed then Fault else Done (insert a freed))"

fun destroy_timers :: "'cb loop_timer list \<Rightarrow> nat set \<Rightarrow> nat set comp" where
  "destroy_timers [] freed = Done freed"
| "destroy_timers (t # ts) freed = cbind (free_cell (t_addr t) freed) (destroy_timers ts)"

definition loop_destroy :: "('f, 'cb) loop_t \<Rightarrow> nat set comp" where
  "loop_destroy loop = destroy_timers (timers loop) {}"

section \<open>One iteration of the loop\<close>

definition INT_MAX :: int where
  "INT_MAX = 2 ^ 31 - 1"

definition timer_ms :: "timespec \<Rightarrow> 'cb loop_timer \<Rightarrow> int" where
  "timer_ms now t =
     to_int32 (to_int32 ((tv_sec (t_expiry t) - tv_sec now) * 1000)
               + to_int32 ((tv_nsec (t_expiry t) - tv_nsec now) sdiv 1000000))"

fun poll_timeout :: "timespec \<Rightarrow> 'cb loop_timer list \<Rightarrow> int \<Rightarrow> int" where
  "poll_timeout now [] ms = ms"
| "poll_timeout now (t # ts) ms =
     poll_timeout now ts (if timer_ms now t < ms then timer_ms now t else ms)"

definition loop_timeout :: "loop_env \<Rightarrow> ('f, 'cb) loop_t \<Rightarrow> int \<times> ('f, 'cb) loop_t" where
  "loop_timeout E loop =
     (let (ms, loop1) =
        (if timers loop = [] then (INT_MAX, loop)
         else (poll_timeout (le_clock E (calls loop)) (timers loop) INT_MAX,
               loop\<lparr>calls := calls loop + 1\<rparr>))
      in (if ms < 0 then 0 else ms, loop1))"

text \<open>What \<^verbatim>\<open>poll\<close> returns, and the \<^verbatim>\<open>revents\<close> it leaves in each entry.\<close>

datatype poll_ret = PollOk | PollIntr | PollErr

record poll_result =
  pr_ret :: poll_ret
  pr_revents :: "nat \<Rightarrow> mask"

definition set_revents :: "(nat \<Rightarrow> mask) \<Rightarrow> ('f, 'cb) loop_t \<Rightarrow> ('f, 'cb) loop_t" where
  "set_revents r loop =
     loop\<lparr>fds := map (\<lambda>(i, p). if i < fd_length loop then p\<lparr>pfd_revents := r i\<rparr> else p)
                   (enumerate 0 (fds loop))\<rparr>"

text \<open>
  The walk over the descriptors. The bound \<open>fuel\<close> is one more than the number of entries at
  the start, which is enough as long as the callbacks register no new ones.
\<close>

fun dispatch_fds ::
  "('s \<Rightarrow> ('f, 'cb) loop_t) \<Rightarrow> ('f \<Rightarrow> int \<Rightarrow> mask \<Rightarrow> 's \<Rightarrow> 's run) \<Rightarrow> nat \<Rightarrow> nat \<Rightarrow> 's \<Rightarrow> 's run" where
  "dispatch_fds lp runf 0 i s = Waiting"
| "dispatch_fds lp runf (Suc fuel) i s =
     (if i < length (fd_events (lp s)) then
        (if i < length (fds (lp s)) then
           (let pfd = fds (lp s) ! i;
                events = pfd_events pfd OR POLLHUP OR POLLERR
            in rbind (if pfd_revents pfd AND events \<noteq> 0
                      then runf (fd_events (lp s) ! i) (pfd_fd pfd) (pfd_revents pfd) s
                      else Running s)
                 (dispatch_fds lp runf fuel (Suc i)))
         else Crashed)
      else Running s)"

definition find_timer :: "'cb loop_timer list \<Rightarrow> nat \<Rightarrow> 'cb loop_timer option" where
  "find_timer ts a = find (\<lambda>t. t_addr t = a) ts"

definition first_addr :: "'cb loop_timer list \<Rightarrow> nat option" where
  "first_addr ts = (case ts of [] \<Rightarrow> None | t # _ \<Rightarrow> Some (t_addr t))"

fun timer_succ :: "'cb loop_timer list \<Rightarrow> nat \<Rightarrow> nat option" where
  "timer_succ [] a = None"
| "timer_succ (t # ts) a = (if t_addr t = a then first_addr ts else timer_succ ts a)"

definition unlink :: "nat \<Rightarrow> ('f, 'cb) loop_t \<Rightarrow> ('f, 'cb) loop_t" where
  "unlink a loop = loop\<lparr>timers := filter (\<lambda>t. t_addr t \<noteq> a) (timers loop)\<rparr>"

text \<open>
  The walk over the timers, \<^verbatim>\<open>wl_list_for_each_safe\<close>: \<open>cur\<close> points to a cell, the
  successor is read before the body runs, and following a pointer to a freed cell is a crash.
\<close>

fun dispatch_timers ::
  "('s \<Rightarrow> ('f, 'cb) loop_t) \<Rightarrow> ((('f, 'cb) loop_t \<Rightarrow> ('f, 'cb) loop_t) \<Rightarrow> 's \<Rightarrow> 's)
     \<Rightarrow> ('cb \<Rightarrow> 's \<Rightarrow> 's run) \<Rightarrow> timespec \<Rightarrow> nat \<Rightarrow> nat option \<Rightarrow> 's \<Rightarrow> 's run" where
  "dispatch_timers lp upd run now 0 cur s = Waiting"
| "dispatch_timers lp upd run now (Suc fuel) None s = Running s"
| "dispatch_timers lp upd run now (Suc fuel) (Some a) s =
     (case find_timer (timers (lp s)) a of
        None \<Rightarrow> Crashed
      | Some t \<Rightarrow>
          (let tmp = timer_succ (timers (lp s)) a in
           if t_removed t then dispatch_timers lp upd run now fuel tmp (upd (unlink a) s)
           else if tv_sec (t_expiry t) < tv_sec now \<or>
                   tv_sec (t_expiry t) = tv_sec now \<and> tv_nsec (t_expiry t) < tv_nsec now
           then rbind (run (t_callback t) s)
                  (\<lambda>s'. dispatch_timers lp upd run now fuel tmp (upd (unlink a) s'))
           else dispatch_timers lp upd run now fuel tmp s))"

definition loop_poll ::
  "loop_env \<Rightarrow> (int \<Rightarrow> poll_result) \<Rightarrow> ('s \<Rightarrow> ('f, 'cb) loop_t)
     \<Rightarrow> ((('f, 'cb) loop_t \<Rightarrow> ('f, 'cb) loop_t) \<Rightarrow> 's \<Rightarrow> 's)
     \<Rightarrow> ('f \<Rightarrow> int \<Rightarrow> mask \<Rightarrow> 's \<Rightarrow> 's run) \<Rightarrow> ('cb \<Rightarrow> 's \<Rightarrow> 's run) \<Rightarrow> 's \<Rightarrow> result_t \<times> 's run" where
  "loop_poll E poll lp upd runf run s =
     (let (ms, loop1) = loop_timeout E (lp s);
          r = poll ms;
          s2 = upd (set_revents (pr_revents r)) (upd (\<lambda>_. loop1) s)
      in if pr_ret r = PollErr then (ERR_LOOP_POLL, Running s2)
         else (OK, rbind (dispatch_fds lp runf (Suc (length (fd_events (lp s2)))) 0 s2)
           (\<lambda>s3. if timers (lp s3) = [] then Running s3
                 else dispatch_timers lp upd run (le_clock E (calls (lp s3)))
                        (Suc (length (timers (lp s3)))) (first_addr (timers (lp s3)))
                        (upd (\<lambda>l. l\<lparr>calls := calls l + 1\<rparr>) s3))))"

section \<open>Expiry times\<close>

lemma timespec_less_ns:
  assumes "timespec_ok a" "timespec_ok b"
  shows "a < b \<longleftrightarrow> timespec_ns a < timespec_ns b"
  using assms unfolding less_timespec_def timespec_ns_def timespec_ok_def nsec_per_sec_def
  by linarith

lemma sdiv_smod_1000:
  assumes "0 \<le> (ms :: int)"
  shows "ms sdiv 1000 = ms div 1000" "ms smod 1000 = ms mod 1000"
  using assms by (simp_all add: signed_divide_int_def smod_mod_positive sgn_if)

lemma timer_expiry_exact:
  assumes "0 \<le> ms" "timespec_ok now"
  shows "timespec_ok (timer_expiry now ms)"
    and "timespec_ns (timer_expiry now ms) = timespec_ns now + ms * 1000000"
proof -
  have m: "0 \<le> ms mod 1000" "ms mod 1000 < 1000" by simp_all
  have d: "ms = 1000 * (ms div 1000) + ms mod 1000" by simp
  show "timespec_ok (timer_expiry now ms)"
    using assms m by (auto simp: timer_expiry_def Let_def timespec_ok_def sdiv_smod_1000 nsec_per_sec_def)
  show "timespec_ns (timer_expiry now ms) = timespec_ns now + ms * 1000000"
  proof -
    have "ms mod 1000 * 1000000 + ms div 1000 * 1000000000 = ms * 1000000" using d by linarith
    then show ?thesis
      by (simp add: timer_expiry_def Let_def timespec_ns_def sdiv_smod_1000 [OF assms(1)]
          nsec_per_sec_def algebra_simps)
  qed
qed

section \<open>The timeout\<close>

lemma poll_timeout_le: "poll_timeout now ts ms \<le> ms"
  by (induction now ts ms rule: poll_timeout.induct) (auto intro: order_trans)

lemma poll_timeout_le_timer: "t \<in> set ts \<Longrightarrow> poll_timeout now ts ms \<le> timer_ms now t"
proof (induction now ts ms rule: poll_timeout.induct)
  case (2 now u ts ms)
  then show ?case using poll_timeout_le [of now ts "if timer_ms now u < ms then timer_ms now u else ms"]
    by auto
qed simp

lemma poll_timeout_attained:
  "poll_timeout now ts ms = ms \<or> (\<exists>t\<in>set ts. poll_timeout now ts ms = timer_ms now t)"
  by (induction now ts ms rule: poll_timeout.induct) auto

lemma sdiv_million:
  assumes "\<bar>x\<bar> < nsec_per_sec"
  shows "\<bar>(x :: int) sdiv 1000000 * 1000000 - x\<bar> < 1000000" "\<bar>x sdiv 1000000\<bar> \<le> 1000"
proof -
  have q: "\<bar>x\<bar> = 1000000 * (\<bar>x\<bar> div 1000000) + \<bar>x\<bar> mod 1000000"
    "0 \<le> \<bar>x\<bar> mod 1000000" "\<bar>x\<bar> mod 1000000 < 1000000" by simp_all
  have "x sdiv 1000000 = sgn x * (\<bar>x\<bar> div 1000000)" by (simp add: signed_divide_int_def)
  then show "\<bar>x sdiv 1000000 * 1000000 - x\<bar> < 1000000" "\<bar>x sdiv 1000000\<bar> \<le> 1000"
    using q assms by (cases x "0 :: int" rule: linorder_cases; simp add: nsec_per_sec_def; linarith)+
qed

text \<open>The milliseconds of a timer are within one of the time that is left, while that time
  fits in an \<^verbatim>\<open>int\<close>.\<close>

lemma timer_ms_accurate:
  assumes "timespec_ok now" "timespec_ok (t_expiry t)"
    and "\<bar>tv_sec (t_expiry t) - tv_sec now\<bar> \<le> 2000000"
  shows "\<bar>timer_ms now t * 1000000 - (timespec_ns (t_expiry t) - timespec_ns now)\<bar> < 1000000"
proof -
  let ?s = "tv_sec (t_expiry t) - tv_sec now" and ?n = "tv_nsec (t_expiry t) - tv_nsec now"
  have n: "\<bar>?n\<bar> < nsec_per_sec" using assms(1,2) by (auto simp: timespec_ok_def)
  note q = sdiv_million [OF n]
  have s: "- 2000000000 \<le> ?s * 1000" "?s * 1000 \<le> 2000000000" using assms(3) by (simp_all add: abs_le_iff)
  have a1: "to_int32 (?s * 1000) = ?s * 1000"
    by (rule to_int32_id) (use s in linarith)+
  have a2: "to_int32 (?n sdiv 1000000) = ?n sdiv 1000000"
    by (rule to_int32_id) (use q(2) in linarith)+
  have a3: "to_int32 (?s * 1000 + ?n sdiv 1000000) = ?s * 1000 + ?n sdiv 1000000"
    by (rule to_int32_id) (use s q(2) in linarith)+
  note a = a1 a2 a3
  have "timer_ms now t = ?s * 1000 + ?n sdiv 1000000" using a by (simp add: timer_ms_def)
  then have "timer_ms now t * 1000000 - (?s * nsec_per_sec + ?n) = ?n sdiv 1000000 * 1000000 - ?n"
    by (simp add: nsec_per_sec_def algebra_simps)
  moreover have "timespec_ns (t_expiry t) - timespec_ns now = ?s * nsec_per_sec + ?n"
    by (simp add: timespec_ns_def algebra_simps)
  ultimately show ?thesis using q(1) by simp
qed

lemma loop_timeout_bounds:
  "0 \<le> fst (loop_timeout E loop) \<and> fst (loop_timeout E loop) \<le> INT_MAX"
  using poll_timeout_le [of _ "timers loop" INT_MAX]
  by (auto simp: loop_timeout_def INT_MAX_def)

section \<open>Well-formed loops\<close>

definition loop_wf :: "('f, 'cb) loop_t \<Rightarrow> bool" where
  "loop_wf l \<longleftrightarrow> length (fds l) = fd_capacity l \<and> fd_length l = length (fd_events l) \<and>
     fd_length l \<le> fd_capacity l \<and> distinct (map t_addr (timers l))"

text \<open>The registrations: the descriptor and mask of the array with the callback of the list.\<close>

definition loop_regs :: "('f, 'cb) loop_t \<Rightarrow> ((int \<times> mask) \<times> 'f) list" where
  "loop_regs l = zip (map (\<lambda>p. (pfd_fd p, pfd_events p)) (take (fd_length l) (fds l))) (fd_events l)"

lemma loop_create_wf: "loop_create True True = Some l \<Longrightarrow> loop_wf l \<and> loop_regs l = [] \<and> timers l = []"
  by (auto simp: loop_create_def loop_wf_def loop_regs_def)

lemma loop_add_fd_wf:
  assumes "loop_wf l"
  shows "\<exists>l'. loop_add_fd True True l fd m cb = Done l' \<and> loop_wf l' \<and>
    loop_regs l' = loop_regs l @ [((fd, m), cb)] \<and> timers l' = timers l \<and> calls l' = calls l"
proof -
  define fs where "fs = (if fd_length l = fd_capacity l then fds l @ replicate 10 pollfd_undef else fds l)"
  define p where "p = \<lparr>pfd_fd = fd, pfd_events = m, pfd_revents = 0\<rparr>"
  define n where "n = fd_length l"
  have n: "n < length fs" "length (fd_events l) = n" using assms by (auto simp: fs_def loop_wf_def n_def)
  then have "fs[n := p] = take n fs @ p # drop (Suc n) fs" by (simp add: upd_conv_take_nth_drop)
  moreover have "take n fs = take n (fds l)" using assms by (auto simp: fs_def loop_wf_def n_def)
  ultimately have u: "fs[n := p] = take n (fds l) @ p # drop (Suc n) fs" by simp
  define l' where "l' = l\<lparr>fd_events := fd_events l @ [cb], fd_capacity := length fs,
      fds := fs[n := p], fd_length := n + 1\<rparr>"
  have "loop_add_fd True True l fd m cb = Done l'"
    using assms n unfolding loop_add_fd_def
    by (auto simp: buf_write_def Let_def l'_def fs_def p_def n_def loop_wf_def)
  moreover have "loop_wf l'" using assms n by (auto simp: l'_def loop_wf_def)
  moreover have "loop_regs l' = loop_regs l @ [((fd, m), cb)]"
  proof -
    have "n \<le> length (fds l)" using assms by (simp add: loop_wf_def n_def)
    then show ?thesis using n(2) by (simp add: loop_regs_def l'_def u flip: n_def) (simp add: p_def)
  qed
  ultimately show ?thesis by (auto simp: l'_def)
qed

lemma loop_find_fd_spec:
  "i + n \<le> length fs \<Longrightarrow> \<exists>r. loop_find_fd fs i n fd = Done r \<and>
     (case r of None \<Rightarrow> \<forall>k. i \<le> k \<and> k < i + n \<longrightarrow> pfd_fd (fs ! k) \<noteq> fd
      | Some k \<Rightarrow> i \<le> k \<and> k < i + n \<and> pfd_fd (fs ! k) = fd \<and>
          (\<forall>m. i \<le> m \<and> m < k \<longrightarrow> pfd_fd (fs ! m) \<noteq> fd))"
proof (induction fs i n fd rule: loop_find_fd.induct)
  case (2 fs i n fd)
  show ?case
  proof (cases "pfd_fd (fs ! i) = fd")
    case True
    then show ?thesis using 2 by auto
  next
    case False
    then obtain r where "loop_find_fd fs (Suc i) n fd = Done r"
      "case r of None \<Rightarrow> \<forall>k. Suc i \<le> k \<and> k < Suc i + n \<longrightarrow> pfd_fd (fs ! k) \<noteq> fd
      | Some k \<Rightarrow> Suc i \<le> k \<and> k < Suc i + n \<and> pfd_fd (fs ! k) = fd \<and>
          (\<forall>m. Suc i \<le> m \<and> m < k \<longrightarrow> pfd_fd (fs ! m) \<noteq> fd)"
      using 2 by auto
    moreover have "\<forall>m. i \<le> m \<and> m < k \<longrightarrow> pfd_fd (fs ! m) \<noteq> fd"
      if "\<forall>m. Suc i \<le> m \<and> m < k \<longrightarrow> pfd_fd (fs ! m) \<noteq> fd" for k
      using that False by (metis Suc_leI le_neq_implies_less)
    ultimately show ?thesis using False 2(2)
      by (intro exI [of _ r]) (auto split: option.splits)
  qed
qed auto

text \<open>Removal takes out the first registration of the descriptor and keeps the others paired.\<close>

lemma loop_remove_fd_wf:
  assumes "loop_wf l"
  shows "\<exists>r l'. loop_remove_fd l fd = Done (r, l') \<and> loop_wf l' \<and> timers l' = timers l \<and>
    (if \<exists>x\<in>set (loop_regs l). fst (fst x) = fd
     then r \<and> (\<exists>xs x ys. loop_regs l = xs @ x # ys \<and> fst (fst x) = fd \<and>
                 (\<forall>y\<in>set xs. fst (fst y) \<noteq> fd) \<and> loop_regs l' = xs @ ys)
     else \<not> r \<and> l' = l)"
proof -
  let ?n = "fd_length l" and ?f = "\<lambda>p. (pfd_fd p, pfd_events p)"
  have n: "length (fds l) = fd_capacity l" "length (fd_events l) = ?n" "?n \<le> length (fds l)"
    "distinct (map t_addr (timers l))"
    using assms by (auto simp: loop_wf_def)
  have len: "length (loop_regs l) = ?n" using n by (simp add: loop_regs_def)
  have nth: "k < ?n \<Longrightarrow> loop_regs l ! k = (?f (fds l ! k), fd_events l ! k)" for k
    using n by (simp add: loop_regs_def)
  obtain r where r: "loop_find_fd (fds l) 0 ?n fd = Done r"
    "case r of None \<Rightarrow> \<forall>k. 0 \<le> k \<and> k < 0 + ?n \<longrightarrow> pfd_fd (fds l ! k) \<noteq> fd
      | Some k \<Rightarrow> 0 \<le> k \<and> k < 0 + ?n \<and> pfd_fd (fds l ! k) = fd \<and>
          (\<forall>m. 0 \<le> m \<and> m < k \<longrightarrow> pfd_fd (fds l ! m) \<noteq> fd)"
    using loop_find_fd_spec [of 0 ?n "fds l" fd] n(3) by auto
  show ?thesis
  proof (cases r)
    case None
    then have "\<forall>x\<in>set (loop_regs l). fst (fst x) \<noteq> fd"
      using r(2) nth len by (auto simp: in_set_conv_nth)
    then show ?thesis using r None n assms by (auto simp: loop_remove_fd_def)
  next
    case (Some i)
    then have i: "i < ?n" "pfd_fd (fds l ! i) = fd" "\<forall>m<i. pfd_fd (fds l ! m) \<noteq> fd" using r(2) by auto
    define l' where "l' = l\<lparr>fd_events := take i (fd_events l) @ drop (Suc i) (fd_events l),
        fd_length := ?n - 1,
        fds := take i (fds l) @ take (?n - 1 - i) (drop (i + 1) (fds l)) @ drop (?n - 1) (fds l)\<rparr>"
    have 1: "loop_remove_fd l fd = Done (True, l')"
      using r Some i n by (simp add: loop_remove_fd_def buf_read_def Let_def l'_def)
    have 2: "loop_wf l'" using i n assms by (auto simp: l'_def loop_wf_def)
    have 3: "loop_regs l' = take i (loop_regs l) @ drop (Suc i) (loop_regs l)"
    proof -
      have "take (?n - 1) (fds l') = take i (fds l) @ drop (Suc i) (take ?n (fds l))"
      proof -
        have "i \<le> ?n - 1" using i by simp
        then have "take (?n - 1) (take i (fds l)) = take i (fds l)" by (simp add: min_def)
        then show ?thesis using i n by (simp add: l'_def drop_take del: take_take)
      qed
      moreover have "fd_length l' = ?n - 1"
        "fd_events l' = take i (fd_events l) @ drop (Suc i) (fd_events l)" by (simp_all add: l'_def)
      moreover have "take i (take ?n (fds l)) = take i (fds l)" using i by simp
      ultimately show ?thesis using i n
        by (simp add: loop_regs_def take_zip drop_zip take_map drop_map min_def)
    qed
    have 4: "loop_regs l = take i (loop_regs l) @ loop_regs l ! i # drop (Suc i) (loop_regs l)"
      using i len by (simp add: id_take_nth_drop)
    have 5: "fst (fst (loop_regs l ! i)) = fd" using i nth by simp
    have 6: "\<forall>y\<in>set (take i (loop_regs l)). fst (fst y) \<noteq> fd"
      using i nth len by (auto simp: in_set_conv_nth)
    have 7: "loop_regs l ! i \<in> set (loop_regs l)" using i len by simp
    have 8: "timers l' = timers l" by (simp add: l'_def)
    have "\<exists>x\<in>set (loop_regs l). fst (fst x) = fd" using 5 7 by blast
    then show ?thesis using 1 2 3 4 5 6 8 by metis
  qed
qed

section \<open>The timers in force\<close>

definition live_timers :: "('f, 'cb) loop_t \<Rightarrow> (nat \<times> 'cb) set" where
  "live_timers l = {(t_addr t, t_callback t) | t. t \<in> set (timers l) \<and> \<not> t_removed t}"

definition mark :: "nat \<Rightarrow> 'cb loop_timer \<Rightarrow> 'cb loop_timer" where
  "mark a t = (if t_addr t = a then t\<lparr>t_removed := True\<rparr> else t)"

lemma mark_simps [simp]:
  "t_addr (mark a t) = t_addr t" "t_callback (mark a t) = t_callback t"
  "t_expiry (mark a t) = t_expiry t" "t_removed (mark a t) \<longleftrightarrow> t_removed t \<or> t_addr t = a"
  by (simp_all add: mark_def)

lemma map_mark_other: "a \<notin> t_addr ` set ts \<Longrightarrow> map (mark a) ts = ts"
  by (induction ts) (auto simp: mark_def)

lemma map_addr_mark [simp]: "map t_addr (map (mark a) ts) = map t_addr ts"
  by (induction ts) auto

lemma mark_removed_map:
  "distinct (map t_addr ts) \<Longrightarrow>
     mark_removed ts a =
       (a \<in> t_addr ` set ts, map (mark a) ts)"
  by (induction ts) (auto simp: map_mark_other mark_def)

lemma loop_add_timer_wf:
  assumes "loop_env_ok E" "loop_wf l" "loop_add_timer E l ms cb = (r, l')"
  shows "loop_wf l' \<and> fds l' = fds l \<and> fd_length l' = fd_length l \<and> fd_events l' = fd_events l \<and>
    (case r of None \<Rightarrow> timers l' = timers l
     | Some a \<Rightarrow> a \<notin> timer_addrs l \<and>
         (\<exists>t. timers l' = t # timers l \<and> t_addr t = a \<and> t_callback t = cb \<and> \<not> t_removed t))"
  using assms
  by (auto simp: loop_add_timer_def loop_wf_def loop_env_ok_def timer_addrs_def split: option.splits)

lemma loop_remove_timer_wf:
  assumes "loop_wf l" "loop_remove_timer l a = (r, l')"
  shows "loop_wf l' \<and> fds l' = fds l \<and> fd_length l' = fd_length l \<and> fd_events l' = fd_events l \<and>
    r = (a \<in> timer_addrs l) \<and>
    timers l' = map (mark a) (timers l)"
  using assms mark_removed_map [of "timers l" a]
  by (auto simp: loop_remove_timer_def loop_wf_def timer_addrs_def simp del: map_map)

lemma live_timers_list:
  "live_timers l = set (map (\<lambda>t. (t_addr t, t_callback t)) (filter (\<lambda>t. \<not> t_removed t) (timers l)))"
  by (auto simp: live_timers_def)

lemma live_timers_image: "live_timers l = (\<lambda>t. (t_addr t, t_callback t)) ` {t \<in> set (timers l). \<not> t_removed t}"
  by (auto simp: live_timers_def)

lemma live_timers_mark:
  assumes "timers l' = map (mark a) (timers l)"
  shows "live_timers l' = {x \<in> live_timers l. fst x \<noteq> a}"
proof -
  have "{t \<in> set (timers l'). \<not> t_removed t} = mark a ` {t \<in> set (timers l). \<not> t_removed t \<and> t_addr t \<noteq> a}"
    unfolding assms set_map by (rule set_eqI) (simp add: image_iff, metis mark_simps(1,4))
  then have "live_timers l' =
      (\<lambda>t. (t_addr t, t_callback t)) ` {t \<in> set (timers l). \<not> t_removed t \<and> t_addr t \<noteq> a}"
    by (simp add: live_timers_image image_image)
  then show ?thesis by (auto simp: live_timers_image)
qed

lemma timer_addrs_mark: "timers l' = map (mark a) (timers l) \<Longrightarrow> timer_addrs l' = timer_addrs l"
  by (simp add: timer_addrs_def image_image)

section \<open>Timer handles\<close>

text \<open>
  The two ways the program uses a timer through a handle: cancel what the handle refers to, or
  replace it by a new timer.
\<close>

definition timer_cancel :: "('l \<Rightarrow> 'a \<Rightarrow> bool \<times> 'l) \<Rightarrow> 'l \<Rightarrow> 'a option \<Rightarrow> 'l" where
  "timer_cancel remove l h = (case h of None \<Rightarrow> l | Some a \<Rightarrow> snd (remove l a))"

definition timer_rearm ::
  "('l \<Rightarrow> int \<Rightarrow> 'cb \<Rightarrow> 'a option \<times> 'l) \<Rightarrow> ('l \<Rightarrow> 'a \<Rightarrow> bool \<times> 'l)
     \<Rightarrow> 'l \<Rightarrow> 'a option \<Rightarrow> int \<Rightarrow> 'cb \<Rightarrow> 'a option \<times> 'l" where
  "timer_rearm add remove l h ms cb = add (timer_cancel remove l h) ms cb"

text \<open>
  Ownership: the handle is exactly the live timer with this callback. Timers in \<open>X\<close> (the
  one whose callback is running) do not count.
\<close>

definition slot_ok :: "('a \<times> 'cb) set \<Rightarrow> 'a set \<Rightarrow> 'cb \<Rightarrow> 'a option \<Rightarrow> bool" where
  "slot_ok L X cb h \<longleftrightarrow> (\<forall>a. (a, cb) \<in> L \<and> a \<notin> X \<longleftrightarrow> h = Some a)"

lemma slot_ok_fired:
  assumes "\<And>c. (a, c) \<in> L \<Longrightarrow> c = cb" "slot_ok L {} cb' h"
  shows "slot_ok L {a} cb' (if cb' = cb then (if h = Some a then None else h) else h)"
  using assms unfolding slot_ok_def by (cases h) auto

locale timer_service =
  fixes wf :: "'e \<Rightarrow> 'l \<Rightarrow> bool"
    and addrs :: "'l \<Rightarrow> 'a set"
    and live :: "'l \<Rightarrow> ('a \<times> 'cb) set"
    and add :: "'e \<Rightarrow> 'l \<Rightarrow> int \<Rightarrow> 'cb \<Rightarrow> 'a option \<times> 'l"
    and remove :: "'l \<Rightarrow> 'a \<Rightarrow> bool \<times> 'l"
  assumes live_addrs: "(a, cb) \<in> live l \<Longrightarrow> a \<in> addrs l"
    and live_unique: "wf e l \<Longrightarrow> (a, cb) \<in> live l \<Longrightarrow> (a, cb') \<in> live l \<Longrightarrow> cb = cb'"
    and add_none: "wf e l \<Longrightarrow> add e l ms cb = (None, l') \<Longrightarrow>
          wf e l' \<and> live l' = live l \<and> addrs l' = addrs l"
    and add_some: "wf e l \<Longrightarrow> add e l ms cb = (Some a, l') \<Longrightarrow>
          wf e l' \<and> a \<notin> addrs l \<and> live l' = insert (a, cb) (live l) \<and> addrs l' = insert a (addrs l)"
    and remove_live: "wf e l \<Longrightarrow> remove l a = (r, l') \<Longrightarrow>
          wf e l' \<and> live l' = {x \<in> live l. fst x \<noteq> a} \<and> addrs l' = addrs l"
begin

lemma add_slots:
  assumes "wf e l" "add e l ms cb = (h', l')" "X \<subseteq> addrs l" "slot_ok (live l) X cb None"
  shows "wf e l' \<and> X \<subseteq> addrs l' \<and> addrs l \<subseteq> addrs l' \<and> slot_ok (live l') X cb h' \<and>
    (\<forall>cb' h. cb' \<noteq> cb \<longrightarrow> slot_ok (live l) X cb' h \<longrightarrow> slot_ok (live l') X cb' h)"
proof (cases h')
  case None
  then show ?thesis using assms add_none by (metis subset_refl)
next
  case (Some a)
  then have a: "wf e l'" "a \<notin> addrs l" "live l' = insert (a, cb) (live l)" "addrs l' = insert a (addrs l)"
    using add_some assms by blast+
  then show ?thesis using assms Some live_addrs by (auto simp: slot_ok_def)
qed

lemma cancel_slots:
  assumes "wf e l" "X \<subseteq> addrs l" "slot_ok (live l) X cb h"
  shows "wf e (timer_cancel remove l h) \<and> addrs (timer_cancel remove l h) = addrs l \<and>
    slot_ok (live (timer_cancel remove l h)) X cb None \<and>
    (\<forall>cb' h'. cb' \<noteq> cb \<longrightarrow> slot_ok (live l) X cb' h' \<longrightarrow>
       slot_ok (live (timer_cancel remove l h)) X cb' h')"
proof (cases h)
  case None
  then show ?thesis using assms by (simp add: timer_cancel_def)
next
  case (Some a)
  obtain r l' where r: "remove l a = (r, l')" by fastforce
  note l' = remove_live [OF assms(1) r]
  have "(a, cb) \<in> live l" using assms(3) Some by (auto simp: slot_ok_def)
  then have "\<And>c. (a, c) \<in> live l \<Longrightarrow> c = cb" using live_unique assms(1) by blast
  moreover have "timer_cancel remove l h = l'" using Some r by (simp add: timer_cancel_def)
  ultimately show ?thesis using assms(3) Some l' unfolding slot_ok_def by auto metis+
qed

lemma rearm_slots:
  assumes "wf e l" "X \<subseteq> addrs l" "slot_ok (live l) X cb h"
    and "timer_rearm (add e) remove l h ms cb = (h', l')"
  shows "wf e l' \<and> addrs l \<subseteq> addrs l' \<and> slot_ok (live l') X cb h' \<and>
    (\<forall>cb' k. cb' \<noteq> cb \<longrightarrow> slot_ok (live l) X cb' k \<longrightarrow> slot_ok (live l') X cb' k)"
proof -
  note c = cancel_slots [OF assms(1-3)]
  have "add e (timer_cancel remove l h) ms cb = (h', l')" using assms(4) by (simp add: timer_rearm_def)
  with add_slots [OF _ this, of X] c assms(2) show ?thesis by auto
qed

text \<open>A timer that is replaced is no longer in force, whatever address the new one gets.\<close>

lemma rearm_drops:
  assumes "wf e l" "a \<in> addrs l" "timer_rearm (add e) remove l (Some a) ms cb = (h', l')"
  shows "(a, c) \<notin> live l'"
proof -
  obtain r l1 where r: "remove l a = (r, l1)" by fastforce
  note l1 = remove_live [OF assms(1) r]
  have add: "add e l1 ms cb = (h', l')" using assms(3) r by (simp add: timer_rearm_def timer_cancel_def)
  show ?thesis
  proof (cases h')
    case None
    then show ?thesis using add_none [of e l1 ms cb l'] l1 add by auto
  next
    case (Some b)
    then show ?thesis using add_some [of e l1 ms cb b l'] l1 add assms(2) by auto
  qed
qed

end

definition loop_ok :: "loop_env \<Rightarrow> ('f, 'cb) loop_t \<Rightarrow> bool" where
  "loop_ok E l \<longleftrightarrow> loop_env_ok E \<and> loop_wf l"

interpretation loop_timers: timer_service loop_ok timer_addrs live_timers loop_add_timer loop_remove_timer
proof unfold_locales
  show "(a, cb) \<in> live_timers l \<Longrightarrow> a \<in> timer_addrs l" for a cb and l :: "('f, 'cb) loop_t"
    by (auto simp: live_timers_def timer_addrs_def)
  show "loop_ok e l \<Longrightarrow> (a, cb) \<in> live_timers l \<Longrightarrow> (a, cb') \<in> live_timers l \<Longrightarrow> cb = cb'"
    for e a cb cb' and l :: "('f, 'cb) loop_t"
    by (auto simp: live_timers_def loop_ok_def loop_wf_def distinct_map inj_on_def)
  show "loop_ok e l \<Longrightarrow> loop_add_timer e l ms cb = (None, l') \<Longrightarrow>
      loop_ok e l' \<and> live_timers l' = live_timers l \<and> timer_addrs l' = timer_addrs l"
    for e ms cb and l l' :: "('f, 'cb) loop_t"
    using loop_add_timer_wf [of e l ms cb None l']
    by (auto simp: loop_ok_def live_timers_def timer_addrs_def)
  show "loop_ok e l \<Longrightarrow> loop_add_timer e l ms cb = (Some a, l') \<Longrightarrow>
      loop_ok e l' \<and> a \<notin> timer_addrs l \<and> live_timers l' = insert (a, cb) (live_timers l) \<and>
      timer_addrs l' = insert a (timer_addrs l)"
    for e ms cb a and l l' :: "('f, 'cb) loop_t"
    using loop_add_timer_wf [of e l ms cb "Some a" l']
    by (auto simp: loop_ok_def live_timers_def timer_addrs_def)
  show "loop_ok e l \<Longrightarrow> loop_remove_timer l a = (r, l') \<Longrightarrow>
      loop_ok e l' \<and> live_timers l' = {x \<in> live_timers l. fst x \<noteq> a} \<and> timer_addrs l' = timer_addrs l"
    for e a r and l l' :: "('f, 'cb) loop_t"
    using loop_remove_timer_wf [of l a r l'] live_timers_mark [of l' a l] timer_addrs_mark [of l' a l]
    by (simp add: loop_ok_def)
qed

section \<open>Dispatch on a snapshot\<close>

abbreviation timer_list :: "('f, 'cb) loop_t \<Rightarrow> nat list" where
  "timer_list l \<equiv> map t_addr (timers l)"

text \<open>
  The timers that are dispatched are those registered when the walk starts, each looked up
  when its turn comes.
\<close>

primrec dispatch_list ::
  "('s \<Rightarrow> ('f, 'cb) loop_t) \<Rightarrow> ((('f, 'cb) loop_t \<Rightarrow> ('f, 'cb) loop_t) \<Rightarrow> 's \<Rightarrow> 's)
     \<Rightarrow> ('cb \<Rightarrow> 's \<Rightarrow> 's run) \<Rightarrow> timespec \<Rightarrow> nat list \<Rightarrow> 's \<Rightarrow> 's run" where
  "dispatch_list lp upd run now [] s = Running s"
| "dispatch_list lp upd run now (a # as) s =
     (case find_timer (timers (lp s)) a of
        None \<Rightarrow> Crashed
      | Some t \<Rightarrow>
          if t_removed t then dispatch_list lp upd run now as (upd (unlink a) s)
          else if t_expiry t < now
          then rbind (run (t_callback t) s) (\<lambda>s'. dispatch_list lp upd run now as (upd (unlink a) s'))
          else dispatch_list lp upd run now as s)"

lemma find_timer_in:
  "a \<in> t_addr ` set ts \<Longrightarrow> \<exists>t. find_timer ts a = Some t \<and> t \<in> set ts \<and> t_addr t = a"
  by (induction ts) (auto simp: find_timer_def)

lemma find_timer_Some: "find_timer ts a = Some t \<Longrightarrow> t \<in> set ts \<and> t_addr t = a"
  by (auto simp: find_timer_def find_Some_iff)

lemma timer_succ_split:
  "map t_addr ts = pre @ a # as \<Longrightarrow> a \<notin> set pre \<Longrightarrow> timer_succ ts a = (case as of [] \<Rightarrow> None | b # _ \<Rightarrow> Some b)"
proof (induction ts arbitrary: pre)
  case (Cons t ts)
  then show ?case
    by (cases pre; cases ts; cases as) (auto simp: first_addr_def)
qed simp

lemma timer_list_unlink:
  "timer_list l = pre @ a # as \<Longrightarrow> a \<notin> set pre \<Longrightarrow> a \<notin> set as \<Longrightarrow> timer_list (unlink a l) = pre @ as"
proof -
  assume l: "timer_list l = pre @ a # as" and a: "a \<notin> set pre" "a \<notin> set as"
  have "timer_list (unlink a l) = filter (\<lambda>x. x \<noteq> a) (timer_list l)"
    by (simp add: unlink_def filter_map o_def)
  moreover have "filter (\<lambda>x. x \<noteq> a) pre = pre" "filter (\<lambda>x. x \<noteq> a) as = as"
    using a by (auto intro!: filter_True)
  ultimately show ?thesis by (simp add: l)
qed

section \<open>The contract between the loop and its callbacks\<close>

text \<open>
  \<open>inv\<close> is the invariant of the program between callbacks, \<open>mid a\<close> what holds when the
  callback of the timer \<open>a\<close> has run and its cell is not yet unlinked, \<open>fin\<close> what holds
  when a callback ends the process, \<open>rok\<close> what the answers of \<^verbatim>\<open>poll\<close> are known to satisfy.
  Callbacks of timers may add timers and mark timers, and
  leave the order of the list as it is; callbacks of descriptors keep the table of descriptors.
\<close>

locale loop_client =
  fixes lp :: "'s \<Rightarrow> ('f, 'cb) loop_t"
    and upd :: "(('f, 'cb) loop_t \<Rightarrow> ('f, 'cb) loop_t) \<Rightarrow> 's \<Rightarrow> 's"
    and runf :: "'f \<Rightarrow> int \<Rightarrow> mask \<Rightarrow> 's \<Rightarrow> 's run"
    and run :: "'cb \<Rightarrow> 's \<Rightarrow> 's run"
    and inv :: "'s \<Rightarrow> bool"
    and mid :: "nat \<Rightarrow> 's \<Rightarrow> bool"
    and fin :: "int \<Rightarrow> 's \<Rightarrow> bool"
    and rok :: "(nat \<Rightarrow> mask) \<Rightarrow> bool"
  assumes lp_upd: "lp (upd f s) = f (lp s)"
    and upd_self: "upd (\<lambda>_. f (lp s)) s = upd f s"
    and inv_wf: "inv s \<Longrightarrow> loop_wf (lp s)"
    and fire: "inv s \<Longrightarrow> t \<in> set (timers (lp s)) \<Longrightarrow> \<not> t_removed t \<Longrightarrow>
        run_all (\<lambda>s'. mid (t_addr t) s' \<and> loop_wf (lp s') \<and>
                   (\<exists>new. timer_list (lp s') = new @ timer_list (lp s))) fin (run (t_callback t) s)"
    and unlink_mid: "mid a s \<Longrightarrow> inv (upd (unlink a) s)"
    and unlink_removed: "inv s \<Longrightarrow> t \<in> set (timers (lp s)) \<Longrightarrow> t_removed t \<Longrightarrow>
        inv (upd (unlink (t_addr t)) s)"
    and tick: "inv s \<Longrightarrow> inv (upd (\<lambda>l. l\<lparr>calls := n\<rparr>) s)"
    and revents: "inv s \<Longrightarrow> rok r \<Longrightarrow> inv (upd (set_revents r) s)"
    and fd: "inv s \<Longrightarrow> i < length (fd_events (lp s)) \<Longrightarrow> p = fds (lp s) ! i \<Longrightarrow>
        pfd_revents p AND (pfd_events p OR POLLHUP OR POLLERR) \<noteq> 0 \<Longrightarrow>
        run_all (\<lambda>s'. inv s' \<and> fd_events (lp s') = fd_events (lp s)) fin
          (runf (fd_events (lp s) ! i) (pfd_fd p) (pfd_revents p) s)"
begin

lemma dispatch_list_inv:
  assumes "inv s" "timer_list (lp s) = pre @ as"
  shows "run_all inv fin (dispatch_list lp upd run now as s)"
  using assms
proof (induction as arbitrary: s pre)
  case (Cons a as)
  have d: "distinct (pre @ a # as)" using inv_wf [OF Cons.prems(1)] Cons.prems(2) by (simp add: loop_wf_def)
  have "a \<in> t_addr ` set (timers (lp s))" using Cons.prems(2) by (metis in_set_conv_decomp image_set)
  then obtain t where t: "find_timer (timers (lp s)) a = Some t" "t \<in> set (timers (lp s))" "t_addr t = a"
    using find_timer_in by metis
  have step: "run_all inv fin (dispatch_list lp upd run now as (upd (unlink a) s'))"
    if "inv (upd (unlink a) s')" "timer_list (lp s') = p @ a # as" "a \<notin> set p" for s' p
  proof -
    have "timer_list (lp (upd (unlink a) s')) = p @ as"
      using that(2,3) d timer_list_unlink [of "lp s'" p a as] by (simp add: lp_upd)
    then show ?thesis using Cons.IH that(1) by blast
  qed
  show ?case
  proof (cases "t_removed t")
    case True
    then show ?thesis
      using step [of s pre] unlink_removed [OF Cons.prems(1) t(2)] Cons.prems(2) d t by simp
  next
    case False
    show ?thesis
    proof (cases "t_expiry t < now")
      case True
      have "run_all inv fin (rbind (run (t_callback t) s)
          (\<lambda>s'. dispatch_list lp upd run now as (upd (unlink a) s')))"
      proof (rule run_all_rbind [OF fire [OF Cons.prems(1) t(2) False]])
        fix s' assume s': "mid (t_addr t) s' \<and> loop_wf (lp s') \<and>
          (\<exists>new. timer_list (lp s') = new @ timer_list (lp s))"
        then obtain new where n: "timer_list (lp s') = (new @ pre) @ a # as"
          using Cons.prems(2) by auto
        then have "a \<notin> set (new @ pre)" using s' by (auto simp: loop_wf_def)
        with n s' t unlink_mid step show "run_all inv fin (dispatch_list lp upd run now as (upd (unlink a) s'))"
          by blast
      qed
      then show ?thesis using t False True by simp
    next
      case no: False
      have "timer_list (lp s) = (pre @ [a]) @ as" using Cons.prems(2) by simp
      then show ?thesis using Cons.IH [OF Cons.prems(1)] t False no by simp
    qed
  qed
qed simp

text \<open>When no timer has expired the walk runs no callback, it only unlinks the removed ones.\<close>

lemma dispatch_list_quiet:
  assumes "inv s" "timer_list (lp s) = pre @ as" "\<forall>t\<in>set (timers (lp s)). \<not> t_expiry t < now"
    and "P s" "\<And>s a. P s \<Longrightarrow> P (upd (unlink a) s)"
  shows "\<exists>s'. dispatch_list lp upd run now as s = Running s' \<and> inv s' \<and> P s'"
  using assms(1-4)
proof (induction as arbitrary: s pre)
  case (Cons a as)
  have d: "distinct (pre @ a # as)" using inv_wf [OF Cons.prems(1)] Cons.prems(2) by (simp add: loop_wf_def)
  have "a \<in> t_addr ` set (timers (lp s))" using Cons.prems(2) by (metis in_set_conv_decomp image_set)
  then obtain t where t: "find_timer (timers (lp s)) a = Some t" "t \<in> set (timers (lp s))" "t_addr t = a"
    using find_timer_in by metis
  show ?case
  proof (cases "t_removed t")
    case True
    let ?s = "upd (unlink a) s"
    have "timer_list (lp ?s) = pre @ as"
      using d Cons.prems(2) timer_list_unlink [of "lp s" pre a as] by (simp add: lp_upd)
    moreover have "inv ?s" using unlink_removed [OF Cons.prems(1) t(2) True] t(3) by simp
    moreover have "\<forall>t\<in>set (timers (lp ?s)). \<not> t_expiry t < now"
      using Cons.prems(3) by (simp add: lp_upd unlink_def)
    ultimately show ?thesis using Cons.IH [of ?s pre] Cons.prems(4) assms(5) t True by simp
  next
    case False
    have "timer_list (lp s) = (pre @ [a]) @ as" using Cons.prems(2) by simp
    then show ?thesis using Cons.IH [OF Cons.prems(1) _ Cons.prems(3,4)] Cons.prems(3) t False by simp
  qed
qed simp

text \<open>The pointer walk is the walk over the snapshot, and the fuel is enough.\<close>

lemma dispatch_timers_list:
  assumes "inv s" "timer_list (lp s) = pre @ as" "length as < fuel"
  shows "dispatch_timers lp upd run now fuel (case as of [] \<Rightarrow> None | a # _ \<Rightarrow> Some a) s =
    dispatch_list lp upd run now as s"
  using assms
proof (induction as arbitrary: s pre fuel)
  case Nil
  then show ?case by (cases fuel) auto
next
  case (Cons a as)
  obtain k where k: "fuel = Suc k" "length as < k" using Cons.prems(3) by (cases fuel) auto
  have d: "distinct (pre @ a # as)" using inv_wf [OF Cons.prems(1)] Cons.prems(2) by (simp add: loop_wf_def)
  have "a \<in> t_addr ` set (timers (lp s))" using Cons.prems(2) by (metis in_set_conv_decomp image_set)
  then obtain t where t: "find_timer (timers (lp s)) a = Some t" "t \<in> set (timers (lp s))" "t_addr t = a"
    using find_timer_in by metis
  let ?tmp = "case as of [] \<Rightarrow> None | b # _ \<Rightarrow> Some b"
  have succ: "timer_succ (timers (lp s)) a = ?tmp"
    using timer_succ_split Cons.prems(2) d by fastforce
  have step: "dispatch_timers lp upd run now k ?tmp (upd (unlink a) s') =
      dispatch_list lp upd run now as (upd (unlink a) s')"
    if "inv (upd (unlink a) s')" "timer_list (lp s') = p @ a # as" "a \<notin> set p" for s' p
  proof -
    have "timer_list (lp (upd (unlink a) s')) = p @ as"
      using that(2,3) d timer_list_unlink [of "lp s'" p a as] by (simp add: lp_upd)
    then show ?thesis using Cons.IH [OF that(1) _ k(2)] by blast
  qed
  have cond: "(tv_sec (t_expiry t) < tv_sec now \<or>
      tv_sec (t_expiry t) = tv_sec now \<and> tv_nsec (t_expiry t) < tv_nsec now) = (t_expiry t < now)"
    by (simp add: less_timespec_def)
  note unfold = dispatch_timers.simps(3) t(1) succ cond k Let_def option.case dispatch_list.simps(2) list.case
  show ?case
  proof (cases "t_removed t")
    case True
    then show ?thesis using step [of s pre] unlink_removed [OF Cons.prems(1) t(2)] Cons.prems(2) d t
      unfolding unfold by simp
  next
    case False
    show ?thesis
    proof (cases "t_expiry t < now")
      case True
      have "rbind (run (t_callback t) s) (\<lambda>s'. dispatch_timers lp upd run now k ?tmp (upd (unlink a) s')) =
        rbind (run (t_callback t) s) (\<lambda>s'. dispatch_list lp upd run now as (upd (unlink a) s'))"
      proof (rule rbind_cong [OF refl])
        fix s' assume r: "run (t_callback t) s = Running s'"
        then have s': "mid (t_addr t) s'" "loop_wf (lp s')" "\<exists>new. timer_list (lp s') = new @ timer_list (lp s)"
          using fire [OF Cons.prems(1) t(2) False] by simp_all
        then obtain new where n: "timer_list (lp s') = (new @ pre) @ a # as"
          using Cons.prems(2) by auto
        then have "a \<notin> set (new @ pre)" using s' by (auto simp: loop_wf_def)
        with n s' t unlink_mid step show "dispatch_timers lp upd run now k ?tmp (upd (unlink a) s') =
          dispatch_list lp upd run now as (upd (unlink a) s')" by blast
      qed
      then show ?thesis using False True unfolding unfold by simp
    next
      case no: False
      have "timer_list (lp s) = (pre @ [a]) @ as" using Cons.prems(2) by simp
      then have "dispatch_timers lp upd run now k ?tmp s = dispatch_list lp upd run now as s"
        using Cons.IH [OF Cons.prems(1) _ k(2)] by blast
      then show ?thesis using False no unfolding unfold by simp
    qed
  qed
qed

text \<open>The walk over the descriptors is over before its bound.\<close>

lemma dispatch_fds_inv:
  assumes "inv s" "length (fd_events (lp s)) < i + fuel"
  shows "run_all inv fin (dispatch_fds lp runf fuel i s)"
  using assms
proof (induction fuel arbitrary: i s)
  case (Suc fuel)
  let ?p = "fds (lp s) ! i"
  let ?m = "if pfd_revents ?p AND (pfd_events ?p OR POLLHUP OR POLLERR) \<noteq> 0
            then runf (fd_events (lp s) ! i) (pfd_fd ?p) (pfd_revents ?p) s else Running s"
  have wf: "length (fd_events (lp s)) \<le> length (fds (lp s))"
    using inv_wf [OF Suc.prems(1)] by (simp add: loop_wf_def)
  show ?case
  proof (cases "i < length (fd_events (lp s))")
    case True
    have "run_all (\<lambda>s'. inv s' \<and> fd_events (lp s') = fd_events (lp s)) fin ?m"
      using fd [OF Suc.prems(1) True refl] Suc.prems(1) by simp
    then have "run_all inv fin (rbind ?m (dispatch_fds lp runf fuel (Suc i)))"
      by (rule run_all_rbind) (use Suc in auto)
    then show ?thesis using True wf by (simp add: Let_def)
  qed (use Suc.prems in simp)
qed (simp add: not_less)

lemma loop_poll_inv:
  assumes "inv s" "\<And>ms. rok (pr_revents (poll ms))"
  shows "run_all inv fin (snd (loop_poll E poll lp upd runf run s))"
proof -
  obtain ms l1 where t: "loop_timeout E (lp s) = (ms, l1)" by fastforce
  define n where "n = calls l1"
  have l1: "l1 = lp s\<lparr>calls := n\<rparr>"
    using t by (auto simp: loop_timeout_def n_def Let_def split: if_splits)
  define s2 where "s2 = upd (set_revents (pr_revents (poll ms))) (upd (\<lambda>_. l1) s)"
  have s2: "inv s2"
    using revents [OF tick [OF assms(1)] assms(2)] upd_self [of "\<lambda>l. l\<lparr>calls := n\<rparr>" s] by (simp add: s2_def l1)
  have d: "run_all inv fin (dispatch_fds lp runf (Suc (length (fd_events (lp s2)))) 0 s2)"
    by (rule dispatch_fds_inv [OF s2]) simp
  have timers: "run_all inv fin (dispatch_timers lp upd run now (Suc (length (timers (lp s3))))
      (first_addr (timers (lp s3))) (upd (\<lambda>l. l\<lparr>calls := calls l + 1\<rparr>) s3))" if "inv s3" for s3 now
  proof -
    let ?s4 = "upd (\<lambda>l. l\<lparr>calls := calls l + 1\<rparr>) s3"
    have s4: "inv ?s4" "timer_list (lp ?s4) = [] @ timer_list (lp s3)"
      using tick [OF that, of "calls (lp s3) + 1"] upd_self [of "\<lambda>l. l\<lparr>calls := calls l + 1\<rparr>" s3]
        upd_self [of "\<lambda>l. l\<lparr>calls := calls (lp s3) + 1\<rparr>" s3]
      by (simp_all add: lp_upd)
    have "first_addr (timers (lp s3)) = (case timer_list (lp s3) of [] \<Rightarrow> None | a # _ \<Rightarrow> Some a)"
      by (simp add: first_addr_def split: list.split)
    then show ?thesis
      using dispatch_timers_list [OF s4, of "Suc (length (timers (lp s3)))"] dispatch_list_inv [OF s4]
      by simp
  qed
  show ?thesis
  proof (cases "pr_ret (poll ms) = PollErr")
    case True
    then show ?thesis using s2 t by (simp add: loop_poll_def s2_def)
  next
    case False
    have "run_all inv fin (rbind (dispatch_fds lp runf (Suc (length (fd_events (lp s2)))) 0 s2)
           (\<lambda>s3. if timers (lp s3) = [] then Running s3
                 else dispatch_timers lp upd run (le_clock E (calls (lp s3)))
                        (Suc (length (timers (lp s3)))) (first_addr (timers (lp s3)))
                        (upd (\<lambda>l. l\<lparr>calls := calls l + 1\<rparr>) s3)))"
      by (rule run_all_rbind [OF d]) (use timers in auto)
    then show ?thesis using False t
      by (simp add: loop_poll_def s2_def Let_def del: dispatch_fds.simps dispatch_timers.simps)
  qed
qed

text \<open>One iteration in which no timer has expired: what the descriptors lead to is what it leaves.\<close>

lemma loop_poll_quiet:
  assumes t: "loop_timeout E (lp s) = (ms, l1)" and r: "poll ms = r" "pr_ret r \<noteq> PollErr"
    and s2: "s2 = upd (set_revents (pr_revents r)) (upd (\<lambda>_. l1) s)"
    and d: "dispatch_fds lp runf (Suc (length (fd_events (lp s2)))) 0 s2 = Running s3"
    and q: "inv s3" "\<And>n. \<forall>t\<in>set (timers (lp s3)). \<not> t_expiry t < le_clock E n"
    and P: "P s3" "\<And>s a. P s \<Longrightarrow> P (upd (unlink a) s)" "\<And>s n. P s \<Longrightarrow> P (upd (\<lambda>l. l\<lparr>calls := n\<rparr>) s)"
  shows "\<exists>s'. loop_poll E poll lp upd runf run s = (OK, Running s') \<and> inv s' \<and> P s'"
proof (cases "timers (lp s3) = []")
  case True
  then show ?thesis using assms by (auto simp: loop_poll_def Let_def simp del: dispatch_fds.simps)
next
  case False
  let ?s4 = "upd (\<lambda>l. l\<lparr>calls := calls l + 1\<rparr>) s3"
  have e: "?s4 = upd (\<lambda>l. l\<lparr>calls := calls (lp s3) + 1\<rparr>) s3"
    using upd_self [of "\<lambda>l. l\<lparr>calls := calls l + 1\<rparr>" s3] upd_self [of "\<lambda>l. l\<lparr>calls := calls (lp s3) + 1\<rparr>" s3] by simp
  have s4: "inv ?s4" "P ?s4" "timer_list (lp ?s4) = [] @ timer_list (lp s3)"
    "\<forall>t\<in>set (timers (lp ?s4)). \<not> t_expiry t < le_clock E (calls (lp s3))"
    unfolding e using tick [OF q(1)] P(1,3) q(2) by (simp_all add: lp_upd)
  have "first_addr (timers (lp s3)) = (case timer_list (lp s3) of [] \<Rightarrow> None | a # _ \<Rightarrow> Some a)"
    by (simp add: first_addr_def split: list.split)
  then have "dispatch_timers lp upd run (le_clock E (calls (lp s3))) (Suc (length (timers (lp s3))))
      (first_addr (timers (lp s3))) ?s4 = dispatch_list lp upd run (le_clock E (calls (lp s3))) (timer_list (lp s3)) ?s4"
    using dispatch_timers_list [OF s4(1,3), of "Suc (length (timers (lp s3)))"] by simp
  moreover obtain s' where "dispatch_list lp upd run (le_clock E (calls (lp s3))) (timer_list (lp s3)) ?s4 = Running s'"
    "inv s'" "P s'" using dispatch_list_quiet [OF s4(1,3,4,2) P(2)] by blast
  ultimately show ?thesis using t r s2 d False
    by (simp add: loop_poll_def Let_def del: dispatch_fds.simps dispatch_timers.simps)
qed

end

section \<open>Properties\<close>



text \<open>
  C27: the time the loop sleeps is never negative, and it ends less than a millisecond after the
  expiry of any registered timer that expires within the range of the 32-bit computation.
\<close>

theorem loop_timeout_wakes:
  assumes "timespec_ok (le_clock E (calls l))" "t \<in> set (timers l)" "timespec_ok (t_expiry t)"
    and "\<bar>tv_sec (t_expiry t) - tv_sec (le_clock E (calls l))\<bar> \<le> 2000000"
  shows "0 \<le> fst (loop_timeout E l) \<and>
    fst (loop_timeout E l) * 1000000 <
      max 0 (timespec_ns (t_expiry t) - timespec_ns (le_clock E (calls l))) + 1000000"
proof -
  let ?now = "le_clock E (calls l)"
  have "fst (loop_timeout E l) = max 0 (poll_timeout ?now (timers l) INT_MAX)"
    using assms(2) by (auto simp: loop_timeout_def Let_def max_def)
  moreover have "poll_timeout ?now (timers l) INT_MAX \<le> timer_ms ?now t"
    using assms(2) by (rule poll_timeout_le_timer)
  moreover have "timer_ms ?now t * 1000000 < timespec_ns (t_expiry t) - timespec_ns ?now + 1000000"
    using timer_ms_accurate [OF assms(1,3,4)] by linarith
  ultimately show ?thesis by (auto simp: max_def)
qed

definition demo_loop_env :: loop_env where
  "demo_loop_env = \<lparr>le_calloc = (\<lambda>n A. Some (Suc (Max (insert 0 A)))), le_clock = (\<lambda>n. Timespec (int n) 0)\<rparr>"

definition demo_loop :: "(nat, nat) loop_t" where
  "demo_loop = \<lparr>fds = replicate 10 pollfd_undef, fd_length = 0, fd_capacity = 10, fd_events = [],
     timers = [\<lparr>t_addr = 1, t_callback = 5, t_expiry = Timespec 3 500000000, t_removed = False\<rparr>], calls = 0\<rparr>"

theorem loop_timeout_wakes_witness: "fst (loop_timeout demo_loop_env demo_loop) < 3501"
  using loop_timeout_wakes [of demo_loop_env demo_loop "hd (timers demo_loop)"]
  by (simp add: demo_loop_def demo_loop_env_def timespec_ok_def nsec_per_sec_def timespec_ns_def)



lemma destroy_timers_distinct:
  "distinct (map t_addr ts) \<Longrightarrow> t_addr ` set ts \<inter> freed = {} \<Longrightarrow>
     destroy_timers ts freed = Done (freed \<union> t_addr ` set ts)"
  by (induction ts arbitrary: freed) (auto simp: free_cell_def)

text \<open>
  releasing a loop gives every timer back exactly once, those that are marked as removed and
  not yet unlinked included.
\<close>

theorem loop_destroy_releases:
  assumes "loop_wf l"
  shows "loop_destroy l = Done (timer_addrs l)"
  using assms by (simp add: loop_destroy_def loop_wf_def timer_addrs_def destroy_timers_distinct)

theorem loop_destroy_releases_witness: "loop_destroy demo_loop = Done (timer_addrs demo_loop)"
  by (rule loop_destroy_releases) (simp add: demo_loop_def loop_wf_def)

end
