(* ===== verification/Safebuf.thy ===== *)
theory Safebuf
  imports Results
begin

text \<open>
  \<^verbatim>\<open>src/safebuf.c\<close>: the buffer that holds a password. \<open>sbuf_t\<close> is the C struct: an
  address with the bytes allocated there (\<open>None\<close> is the null pointer), the capacity and
  the length. The two file-level statics are the record \<open>sbuf_static\<close>. The operating
  system's answers are the record \<open>mem_env\<close>: the page size, what \<^verbatim>\<open>posix_memalign\<close>
  returns for a size (an error number, or an address and the uninitialised bytes there) and
  the answer of the n-th \<^verbatim>\<open>mlock\<close> call; the answer of \<^verbatim>\<open>munlock\<close> is only logged. A failed assertion is
  \<open>Fault\<close>, as is an access through a null pointer or past the allocation.
\<close>

section \<open>State and environment\<close>

record sbuf_t =
  sb_buf :: "(nat \<times> byte list) option"
  sb_cap :: nat
  sb_len :: nat

record sbuf_static =
  mlock_supported :: bool
  page_size :: nat

definition sbuf_static_init :: sbuf_static where
  "sbuf_static_init = \<lparr>mlock_supported = True, page_size = 0\<rparr>"

definition sbuf_zero :: sbuf_t where
  "sbuf_zero = \<lparr>sb_buf = None, sb_cap = 0, sb_len = 0\<rparr>"

datatype mlock_ret = MLOCK_OK | MLOCK_EAGAIN | MLOCK_EPERM | MLOCK_OTHER

record mem_env =
  me_pagesize :: nat
  me_memalign :: "nat \<Rightarrow> int + nat \<times> byte list"
  me_mlock :: "nat \<Rightarrow> mlock_ret"

text \<open>
  What the code relies on: \<^verbatim>\<open>posix_memalign\<close> returns a block of the requested size at
  an address that is a multiple of the alignment, here the page size, which is positive.
\<close>

definition mem_env_ok :: "mem_env \<Rightarrow> bool" where
  "mem_env_ok E \<longleftrightarrow> 0 < me_pagesize E \<and>
     (\<forall>n a b. me_memalign E n = Inr (a, b) \<longrightarrow> length b = n \<and> a mod me_pagesize E = 0)"

section \<open>Operations\<close>

definition get_page_size :: "mem_env \<Rightarrow> sbuf_static \<Rightarrow> nat \<times> sbuf_static" where
  "get_page_size E st =
     (let st' = (if page_size st = 0 then st\<lparr>page_size := me_pagesize E\<rparr> else st)
      in (page_size st', st'))"

text \<open>
  The retry loop of \<^verbatim>\<open>lock_buffer\<close>; \<open>n\<close> counts the \<^verbatim>\<open>mlock\<close> calls made so far.
\<close>

fun lock_buffer_loop ::
  "mem_env \<Rightarrow> nat \<Rightarrow> nat \<Rightarrow> sbuf_static \<Rightarrow> result_t \<times> sbuf_static \<times> nat" where
  "lock_buffer_loop E n 0 st = (OK, st, Suc n)"
| "lock_buffer_loop E n (Suc retries) st =
     (case me_mlock E n of
        MLOCK_OK \<Rightarrow> (OK, st, Suc n)
      | MLOCK_EAGAIN \<Rightarrow>
          (if retries = 0 then (ERR_SBUF_LOCK, st, Suc n)
           else lock_buffer_loop E (Suc n) retries st)
      | MLOCK_EPERM \<Rightarrow> (OK, st\<lparr>mlock_supported := False\<rparr>, Suc n)
      | MLOCK_OTHER \<Rightarrow> (ERR_SBUF_LOCK, st, Suc n))"

definition lock_buffer :: "mem_env \<Rightarrow> nat \<Rightarrow> sbuf_static \<Rightarrow> (result_t \<times> sbuf_static \<times> nat) comp" where
  "lock_buffer E addr st =
     (let (ps, st') = get_page_size E st
      in if addr mod ps = 0 then Done (lock_buffer_loop E 0 5 st') else Fault)"

definition memset_zero :: "byte list \<Rightarrow> nat \<Rightarrow> byte list comp" where
  "memset_zero b n = (if n \<le> length b then Done (replicate n 0 @ drop n b) else Fault)"

definition sbuf_create ::
  "mem_env \<Rightarrow> sbuf_static \<Rightarrow> sbuf_t \<Rightarrow> nat \<Rightarrow> (result_t \<times> sbuf_t \<times> sbuf_static) comp" where
  "sbuf_create E st sbuf cap =
     (if cap = 0 then Fault
      else case me_memalign E cap of
        Inl err \<Rightarrow> Done (ERR_SBUF_ALLOC, sbuf, snd (get_page_size E st))
      | Inr (addr, b) \<Rightarrow>
          cbind (lock_buffer E addr (snd (get_page_size E st)))
            (\<lambda>(res, st', calls).
              if res \<noteq> OK then Done (res, sbuf, st')
              else cbind (memset_zero b cap)
                (\<lambda>b'. Done (OK, sbuf\<lparr>sb_buf := Some (addr, b'), sb_cap := cap, sb_len := 0\<rparr>, st'))))"

text \<open>The second component is what the memory holds when it goes back to the allocator.\<close>

definition sbuf_destroy ::
  "mem_env \<Rightarrow> sbuf_static \<Rightarrow> sbuf_t \<Rightarrow> (sbuf_t \<times> byte list \<times> sbuf_static) comp" where
  "sbuf_destroy E st sbuf =
     (case sb_buf sbuf of
        None \<Rightarrow> Fault
      | Some (addr, b) \<Rightarrow>
          (let (ps, st') = get_page_size E st
           in if addr mod ps \<noteq> 0 then Fault
              else cbind (memset_zero b (sb_cap sbuf))
                (\<lambda>b'. Done (sbuf\<lparr>sb_buf := None, sb_cap := 0, sb_len := 0\<rparr>, b', st'))))"

definition sbuf_clear :: "sbuf_t \<Rightarrow> sbuf_t comp" where
  "sbuf_clear sbuf =
     (case sb_buf sbuf of
        None \<Rightarrow> Fault
      | Some (addr, b) \<Rightarrow>
          cbind (memset_zero b (sb_cap sbuf))
            (\<lambda>b'. Done (sbuf\<lparr>sb_buf := Some (addr, b'), sb_len := 0\<rparr>)))"

section \<open>Invariant\<close>

text \<open>A live buffer: its allocation has exactly the capacity, and the length leaves room
  for the terminator, which is there.\<close>

definition sbuf_wf :: "sbuf_t \<Rightarrow> bool" where
  "sbuf_wf sbuf \<longleftrightarrow>
     (case sb_buf sbuf of
        None \<Rightarrow> False
      | Some (addr, b) \<Rightarrow> length b = sb_cap sbuf \<and> sb_len sbuf < sb_cap sbuf \<and> b ! sb_len sbuf = 0)"

definition sbuf_zeroed :: "sbuf_t \<Rightarrow> bool" where
  "sbuf_zeroed sbuf \<longleftrightarrow>
     (case sb_buf sbuf of
        None \<Rightarrow> False
      | Some (addr, b) \<Rightarrow> b = replicate (sb_cap sbuf) 0 \<and> sb_len sbuf = 0)"

lemma memset_zero_all [simp]: "memset_zero b (length b) = Done (replicate (length b) 0)"
  by (simp add: memset_zero_def)

lemma sbuf_clear_wf:
  assumes "sbuf_wf sbuf"
  shows "\<exists>sbuf'. sbuf_clear sbuf = Done sbuf' \<and> sbuf_wf sbuf' \<and> sbuf_zeroed sbuf' \<and>
    sb_cap sbuf' = sb_cap sbuf \<and> map_option fst (sb_buf sbuf') = map_option fst (sb_buf sbuf)"
  using assms
  by (auto simp: sbuf_wf_def sbuf_clear_def sbuf_zeroed_def memset_zero_def split: option.splits)

lemma lock_buffer_loop_calls:
  "lock_buffer_loop E n r st = (res, st', m) \<Longrightarrow> n < m \<and> m \<le> n + max 1 r"
  by (induction E n r st rule: lock_buffer_loop.induct)
    (auto split: mlock_ret.splits if_splits)

lemma lock_buffer_loop_result:
  "fst (lock_buffer_loop E n r st) \<in> {OK, ERR_SBUF_LOCK}"
  by (induction E n r st rule: lock_buffer_loop.induct)
    (auto split: mlock_ret.splits)

lemma lock_buffer_loop_frame:
  "page_size (fst (snd (lock_buffer_loop E n r st))) = page_size st"
  by (induction E n r st rule: lock_buffer_loop.induct) (auto split: mlock_ret.splits)

text \<open>The static page size is either not read yet or the system's.\<close>

definition sbuf_static_ok :: "mem_env \<Rightarrow> sbuf_static \<Rightarrow> bool" where
  "sbuf_static_ok E st \<longleftrightarrow> page_size st \<in> {0, me_pagesize E}"

lemma get_page_size_ok:
  "mem_env_ok E \<Longrightarrow> sbuf_static_ok E st \<Longrightarrow>
     fst (get_page_size E st) = me_pagesize E \<and>
     page_size (snd (get_page_size E st)) = me_pagesize E \<and>
     sbuf_static_ok E (snd (get_page_size E st)) \<and>
     mlock_supported (snd (get_page_size E st)) = mlock_supported st"
  by (auto simp: get_page_size_def sbuf_static_ok_def mem_env_ok_def)

lemma lock_buffer_ok:
  assumes "mem_env_ok E" "sbuf_static_ok E st" "addr mod me_pagesize E = 0"
  shows "\<exists>res st' m. lock_buffer E addr st = Done (res, st', m) \<and>
    res \<in> {OK, ERR_SBUF_LOCK} \<and> sbuf_static_ok E st' \<and> 0 < m \<and> m \<le> 5"
proof -
  obtain ps st1 where g: "get_page_size E st = (ps, st1)" by fastforce
  have gp: "ps = me_pagesize E" "page_size st1 = me_pagesize E"
    using get_page_size_ok [OF assms(1,2)] g by simp_all
  obtain res st2 m where l: "lock_buffer_loop E 0 5 st1 = (res, st2, m)"
    by (metis prod_cases3)
  have "page_size st2 = page_size st1"
    using lock_buffer_loop_frame [of E 0 5 st1] l by simp
  then have "sbuf_static_ok E st2" using gp by (simp add: sbuf_static_ok_def)
  moreover have "res \<in> {OK, ERR_SBUF_LOCK}"
    using lock_buffer_loop_result [of E 0 5 st1] l by simp
  moreover have "0 < m \<and> m \<le> 5" using lock_buffer_loop_calls [OF l] by simp
  moreover have "lock_buffer E addr st = Done (res, st2, m)"
    using g gp assms(3) l by (simp add: lock_buffer_def)
  ultimately show ?thesis by blast
qed

lemma sbuf_create_cases:
  assumes E: "mem_env_ok E" and st: "sbuf_static_ok E st" and cap: "0 < cap"
  shows "\<exists>res sbuf' st'. sbuf_create E st sbuf cap = Done (res, sbuf', st') \<and> sbuf_static_ok E st' \<and>
    (res = OK \<and> sbuf_zeroed sbuf' \<and> sbuf_wf sbuf' \<and> sb_cap sbuf' = cap \<and>
       (\<exists>a b. sb_buf sbuf' = Some (a, b) \<and> a mod me_pagesize E = 0)
     \<or> res \<in> {ERR_SBUF_ALLOC, ERR_SBUF_LOCK} \<and> sbuf' = sbuf)"
proof (cases "me_memalign E cap")
  case (Inl e)
  then show ?thesis
    using cap get_page_size_ok [OF E st] by (simp add: sbuf_create_def)
next
  case (Inr ab)
  obtain a b where ab: "ab = (a, b)" by fastforce
  then have b: "length b = cap" "a mod me_pagesize E = 0"
    using E Inr by (auto simp: mem_env_ok_def)
  have st1: "sbuf_static_ok E (snd (get_page_size E st))" using get_page_size_ok [OF E st] by simp
  obtain res st' m where l: "lock_buffer E a (snd (get_page_size E st)) = Done (res, st', m)"
    "res \<in> {OK, ERR_SBUF_LOCK}" "sbuf_static_ok E st'"
    using lock_buffer_ok [OF E st1 b(2)] by blast
  then show ?thesis
    using Inr ab b cap
    by (auto simp: sbuf_create_def memset_zero_def sbuf_zeroed_def sbuf_wf_def)
qed

lemma sbuf_destroy_wf:
  assumes "mem_env_ok E" "sbuf_static_ok E st" "sbuf_wf sbuf"
    and "\<exists>a b. sb_buf sbuf = Some (a, b) \<and> a mod me_pagesize E = 0"
  shows "\<exists>st'. sbuf_destroy E st sbuf = Done (sbuf_zero, replicate (sb_cap sbuf) 0, st') \<and>
    sbuf_static_ok E st'"
proof -
  obtain a b where ab: "sb_buf sbuf = Some (a, b)" "a mod me_pagesize E = 0" using assms(4) by metis
  obtain ps st1 where g: "get_page_size E st = (ps, st1)" by fastforce
  with get_page_size_ok [OF assms(1,2)] have "ps = me_pagesize E" "sbuf_static_ok E st1" by simp_all
  with g ab assms(3) show ?thesis
    by (auto simp: sbuf_destroy_def sbuf_wf_def memset_zero_def sbuf_zero_def)
qed

section \<open>Properties\<close>

text \<open>
  C34: \<open>sbuf_create\<close> makes at most five \<^verbatim>\<open>mlock\<close> calls, and it returns an error with the
  struct as it was, or a buffer on a page boundary of the capacity asked for, all of it zero. It
  never reads or writes outside the allocation.
\<close>

theorem sbuf_create_spec:
  assumes "mem_env_ok E" "sbuf_static_ok E st" "0 < cap"
  shows "\<exists>res sbuf' st'. sbuf_create E st sbuf cap = Done (res, sbuf', st') \<and>
    (res \<in> {ERR_SBUF_ALLOC, ERR_SBUF_LOCK} \<and> sbuf' = sbuf \<or>
     res = OK \<and> sb_cap sbuf' = cap \<and> sb_len sbuf' = 0 \<and>
       (\<exists>a. sb_buf sbuf' = Some (a, replicate cap 0) \<and> a mod me_pagesize E = 0)) \<and>
    (\<forall>a. a mod me_pagesize E = 0 \<longrightarrow>
       (\<exists>r st'' m. lock_buffer E a st = Done (r, st'', m) \<and> 0 < m \<and> m \<le> 5))"
proof -
  obtain res sbuf' st' where r: "sbuf_create E st sbuf cap = Done (res, sbuf', st')"
    "res = OK \<and> sbuf_zeroed sbuf' \<and> sb_cap sbuf' = cap \<and> (\<exists>a b. sb_buf sbuf' = Some (a, b) \<and> a mod me_pagesize E = 0)
     \<or> res \<in> {ERR_SBUF_ALLOC, ERR_SBUF_LOCK} \<and> sbuf' = sbuf"
    using sbuf_create_cases [OF assms, of sbuf] by auto
  from r(2) have s: "res \<in> {ERR_SBUF_ALLOC, ERR_SBUF_LOCK} \<and> sbuf' = sbuf \<or>
     res = OK \<and> sb_cap sbuf' = cap \<and> sb_len sbuf' = 0 \<and>
       (\<exists>a. sb_buf sbuf' = Some (a, replicate cap 0) \<and> a mod me_pagesize E = 0)"
    by (auto simp: sbuf_zeroed_def split: option.splits)
  have l: "\<forall>a. a mod me_pagesize E = 0 \<longrightarrow> (\<exists>r st'' m. lock_buffer E a st = Done (r, st'', m) \<and> 0 < m \<and> m \<le> 5)"
  proof (intro allI impI)
    fix a assume "a mod me_pagesize E = 0"
    from lock_buffer_ok [OF assms(1,2) this] show "\<exists>r st'' m. lock_buffer E a st = Done (r, st'', m) \<and> 0 < m \<and> m \<le> 5"
      by (elim exE conjE) (intro exI conjI)
  qed
  show ?thesis
    by (rule exI [of _ res], rule exI [of _ sbuf'], rule exI [of _ st'], intro conjI r(1) s l)
qed

definition demo_mem :: mem_env where
  "demo_mem = \<lparr>me_pagesize = 4096, me_memalign = (\<lambda>n. Inr (8192, replicate n 7)), me_mlock = (\<lambda>n. MLOCK_OK)\<rparr>"

lemma demo_mem_ok: "mem_env_ok demo_mem" "sbuf_static_ok demo_mem sbuf_static_init"
  by (simp_all add: mem_env_ok_def demo_mem_def sbuf_static_ok_def sbuf_static_init_def)

theorem sbuf_create_spec_witness:
  "\<exists>res sbuf' st'. sbuf_create demo_mem sbuf_static_init sbuf_zero 4 = Done (res, sbuf', st')"
  using sbuf_create_spec [OF demo_mem_ok, of 4 sbuf_zero] by auto

text \<open>
  C35: a buffer that is destroyed goes back to the allocator with every byte of its capacity
  zero, and clearing a buffer leaves all of its bytes zero and the length zero.
\<close>

theorem sbuf_wiped:
  assumes "mem_env_ok E" "sbuf_static_ok E st" "sbuf_wf sbuf" "sb_buf sbuf = Some (a, b)"
    "a mod me_pagesize E = 0"
  shows "(\<exists>st'. sbuf_destroy E st sbuf = Done (sbuf_zero, replicate (sb_cap sbuf) 0, st')) \<and>
    sbuf_clear sbuf = Done (sbuf\<lparr>sb_buf := Some (a, replicate (sb_cap sbuf) 0), sb_len := 0\<rparr>)"
  using sbuf_destroy_wf [OF assms(1-3)] assms(3-5)
  by (auto simp: sbuf_clear_def sbuf_wf_def memset_zero_def)

theorem sbuf_wiped_witness:
  "sbuf_clear \<lparr>sb_buf = Some (8192, [104, 105, 0, 9]), sb_cap = 4, sb_len = 2\<rparr> =
     Done \<lparr>sb_buf = Some (8192, replicate 4 0), sb_cap = 4, sb_len = 0\<rparr>"
  using sbuf_wiped [OF demo_mem_ok, of "\<lparr>sb_buf = Some (8192, [104, 105, 0, 9]), sb_cap = 4, sb_len = 2\<rparr>"
      8192 "[104, 105, 0, 9]"]
  by (simp add: sbuf_wf_def demo_mem_def)

end
