(* ===== verification/Auth.thy ===== *)
theory Auth
  imports Safebuf
begin

text \<open>
  \<^verbatim>\<open>src/auth.c\<close>: the protocol between the lock screen and the process that checks
  passwords. The two pipes are byte queues. What the kernel answers to each
  \<^verbatim>\<open>read\<close> or \<^verbatim>\<open>write\<close> call is a schedule, a list with one entry per call: an
  interrupted call, a failed call, a call that wrote nothing, or a call that moves up to
  \<open>Suc k\<close> bytes of what is asked and available. A call on an empty pipe that still has a
  writer has not returned, and neither has a loop whose schedule is used up: that is
  \<open>Blocked\<close>. A size is eight bytes, least significant first, as on the 64-bit machines
  the program is packaged for.
\<close>

section \<open>Pipes and schedules\<close>

record pipe_t =
  p_data :: "byte list"
  p_open :: bool

datatype read_event = RIntr | RFail | RChunk nat
datatype write_event = WIntr | WFail | WZero | WChunk nat

definition buf_store :: "'a list \<Rightarrow> nat \<Rightarrow> 'a list \<Rightarrow> 'a list comp" where
  "buf_store b off xs =
     (if off + length xs \<le> length b
      then Done (take off b @ xs @ drop (off + length xs) b) else Fault)"

section \<open>The transfer loops\<close>

text \<open>The result is the C return value, the destination, the pipe and the unused schedule.\<close>

primrec read_full_loop ::
  "read_event list \<Rightarrow> pipe_t \<Rightarrow> byte list \<Rightarrow> nat \<Rightarrow> nat
     \<Rightarrow> (int \<times> byte list \<times> pipe_t \<times> read_event list) comp" where
  "read_full_loop [] p dst sz offset =
     (if offset < sz then Blocked else Done (int offset, dst, p, []))"
| "read_full_loop (e # es) p dst sz offset =
     (if offset < sz then
        (case e of
           RIntr \<Rightarrow> read_full_loop es p dst sz offset
         | RFail \<Rightarrow> Done (- 1, dst, p, es)
         | RChunk k \<Rightarrow>
             (if p_data p = [] then
                (if p_open p then Blocked
                 else if offset = 0 then Done (0, dst, p, es)
                 else Done (- 1, dst, p, es))
              else
                (let n = min (Suc k) (min (sz - offset) (length (p_data p)))
                 in cbind (buf_store dst offset (take n (p_data p)))
                      (\<lambda>dst'. read_full_loop es (p\<lparr>p_data := drop n (p_data p)\<rparr>) dst' sz
                               (offset + n)))))
      else Done (int offset, dst, p, e # es))"

definition read_full ::
  "read_event list \<Rightarrow> pipe_t \<Rightarrow> byte list \<Rightarrow> nat
     \<Rightarrow> (int \<times> byte list \<times> pipe_t \<times> read_event list) comp" where
  "read_full es p dst sz = read_full_loop es p dst sz 0"

primrec write_full_loop ::
  "write_event list \<Rightarrow> pipe_t \<Rightarrow> byte list \<Rightarrow> nat \<Rightarrow> nat
     \<Rightarrow> (bool \<times> pipe_t \<times> write_event list) comp" where
  "write_full_loop [] p src sz offset =
     (if offset < sz then Blocked else Done (True, p, []))"
| "write_full_loop (e # es) p src sz offset =
     (if offset < sz then
        (case e of
           WIntr \<Rightarrow> write_full_loop es p src sz offset
         | WFail \<Rightarrow> Done (False, p, es)
         | WZero \<Rightarrow> Done (False, p, es)
         | WChunk k \<Rightarrow>
             (let n = min (Suc k) (sz - offset)
              in cbind (buf_read src offset n)
                   (\<lambda>chunk. write_full_loop es (p\<lparr>p_data := p_data p @ chunk\<rparr>) src sz
                              (offset + n))))
      else Done (True, p, e # es))"

definition write_full ::
  "write_event list \<Rightarrow> pipe_t \<Rightarrow> byte list \<Rightarrow> nat \<Rightarrow> (bool \<times> pipe_t \<times> write_event list) comp"
  where
  "write_full es p src sz = write_full_loop es p src sz 0"

section \<open>The representation of a size\<close>

fun le_bytes :: "nat \<Rightarrow> nat \<Rightarrow> byte list" where
  "le_bytes 0 n = []"
| "le_bytes (Suc k) n = of_nat n # le_bytes k (n div 256)"

fun le_value :: "byte list \<Rightarrow> nat" where
  "le_value [] = 0"
| "le_value (b # bs) = unat b + 256 * le_value bs"

definition sizeof_size_t :: nat where
  "sizeof_size_t = 8"

definition size_t_bytes :: "nat \<Rightarrow> byte list" where
  "size_t_bytes n = le_bytes sizeof_size_t n"

section \<open>Requests and replies\<close>

definition auth_write_request ::
  "write_event list \<Rightarrow> pipe_t \<Rightarrow> sbuf_t \<Rightarrow> (result_t \<times> sbuf_t \<times> pipe_t \<times> write_event list) comp"
  where
  "auth_write_request es p pw =
     (case sb_buf pw of
        None \<Rightarrow> Fault
      | Some (addr, b) \<Rightarrow>
          (let sz = sb_len pw + 1
           in cbind (write_full es p (size_t_bytes sz) sizeof_size_t)
                (\<lambda>(ok1, p1, es1).
                  if \<not> ok1 then cbind (sbuf_clear pw) (\<lambda>pw'. Done (ERR_AUTH_WRITE, pw', p1, es1))
                  else cbind (write_full es1 p1 b sz)
                    (\<lambda>(ok2, p2, es2).
                      cbind (sbuf_clear pw)
                        (\<lambda>pw'. Done (if ok2 then OK else ERR_AUTH_WRITE, pw', p2, es2))))))"

definition auth_read_request ::
  "mem_env \<Rightarrow> sbuf_static \<Rightarrow> read_event list \<Rightarrow> pipe_t \<Rightarrow> sbuf_t
     \<Rightarrow> (result_t \<times> sbuf_t \<times> sbuf_static \<times> pipe_t \<times> read_event list) comp" where
  "auth_read_request E st es p pw =
     cbind (read_full es p (replicate sizeof_size_t 0) sizeof_size_t)
       (\<lambda>(n, size_buf, p1, es1).
         if n = 0 then Done (ERR_AUTH_EOF, pw, st, p1, es1)
         else if n < 0 then Done (ERR_AUTH_READ, pw, st, p1, es1)
         else (let sz = le_value size_buf in
           if sz = 0 then Done (ERR_AUTH_INVALID, pw, st, p1, es1)
           else cbind (sbuf_create E st pw sz)
             (\<lambda>(res, pw1, st1).
               if res \<noteq> OK then Done (res, pw1, st1, p1, es1)
               else (case sb_buf pw1 of
                   None \<Rightarrow> Fault
                 | Some (addr, b) \<Rightarrow>
                     cbind (read_full es1 p1 b sz)
                       (\<lambda>(m, b', p2, es2).
                         let pw2 = pw1\<lparr>sb_buf := Some (addr, b')\<rparr> in
                         if m \<le> 0 then Done (ERR_AUTH_READ, pw2, st1, p2, es2)
                         else cbind (buf_read b' (sz - 1) 1)
                           (\<lambda>l. if l \<noteq> [0] then Done (ERR_AUTH_INVALID, pw2, st1, p2, es2)
                                else Done (OK, pw2\<lparr>sb_len := sz - 1\<rparr>, st1, p2, es2)))))))"

definition auth_write_reply ::
  "write_event list \<Rightarrow> pipe_t \<Rightarrow> bool \<Rightarrow> (result_t \<times> pipe_t \<times> write_event list) comp" where
  "auth_write_reply es p success =
     cbind (write_full es p [if success then 1 else 0] 1)
       (\<lambda>(ok, p', es'). Done (if ok then OK else ERR_AUTH_WRITE, p', es'))"

definition auth_read_reply ::
  "read_event list \<Rightarrow> pipe_t \<Rightarrow> bool \<Rightarrow> (result_t \<times> bool \<times> pipe_t \<times> read_event list) comp" where
  "auth_read_reply es p auth_success =
     cbind (read_full es p [if auth_success then 1 else 0] 1)
       (\<lambda>(n, b, p', es').
         Done (if n \<le> 0 then ERR_AUTH_READ else OK, b \<noteq> [0], p', es'))"

section \<open>Starting the child\<close>

datatype fork_ret = FORK_FAIL | FORK_CHILD | FORK_PARENT

text \<open>Which ends of the request pipe and of the reply pipe a process holds open.\<close>

record pipe_ends =
  req_read :: bool
  req_write :: bool
  rep_read :: bool
  rep_write :: bool

datatype spawn_ret =
    SpawnReturns result_t pipe_ends
  | SpawnRunsChild pipe_ends bool \<comment> \<open>the process enters \<open>auth_run\<close>; is SIGUSR1 ignored?\<close>

definition auth_spawn_child :: "bool \<Rightarrow> bool \<Rightarrow> fork_ret \<Rightarrow> spawn_ret" where
  "auth_spawn_child pipe0_ok pipe1_ok fork =
     (let none = \<lparr>req_read = False, req_write = False, rep_read = False, rep_write = False\<rparr> in
      if \<not> pipe0_ok then SpawnReturns ERR_AUTH_PIPE none
      else let first = none\<lparr>req_read := True, req_write := True\<rparr> in
      if \<not> pipe1_ok then SpawnReturns ERR_AUTH_PIPE first
      else let all = first\<lparr>rep_read := True, rep_write := True\<rparr> in
      case fork of
        FORK_FAIL \<Rightarrow> SpawnReturns ERR_AUTH_FORK all
      | FORK_CHILD \<Rightarrow> SpawnRunsChild (all\<lparr>req_write := False, rep_read := False\<rparr>) True
      | FORK_PARENT \<Rightarrow> SpawnReturns OK (all\<lparr>req_read := False, rep_write := False\<rparr>))"

section \<open>What the loops do\<close>

text \<open>The schedules under which a transfer of n bytes completes.\<close>

fun rchunks :: "read_event list \<Rightarrow> nat" where
  "rchunks [] = 0"
| "rchunks (e # es) = (case e of RChunk k \<Rightarrow> Suc (rchunks es) | _ \<Rightarrow> rchunks es)"

fun wchunks :: "write_event list \<Rightarrow> nat" where
  "wchunks [] = 0"
| "wchunks (e # es) = (case e of WChunk k \<Rightarrow> Suc (wchunks es) | _ \<Rightarrow> wchunks es)"

definition read_sched_ok :: "nat \<Rightarrow> read_event list \<Rightarrow> bool" where
  "read_sched_ok n es \<longleftrightarrow> RFail \<notin> set es \<and> n \<le> rchunks es"

definition write_sched_ok :: "nat \<Rightarrow> write_event list \<Rightarrow> bool" where
  "write_sched_ok n es \<longleftrightarrow> WFail \<notin> set es \<and> WZero \<notin> set es \<and> n \<le> wchunks es"

lemma chunks_replicate [simp]:
  "rchunks (replicate n (RChunk k)) = n" "wchunks (replicate n (WChunk k)) = n"
  by (induction n) simp_all

lemma buf_store_Done [buf_simps]:
  "off + length xs \<le> length b \<Longrightarrow>
     buf_store b off xs = Done (take off b @ xs @ drop (off + length xs) b)"
  by (simp add: buf_store_def)

lemma read_full_loop_done: "sz \<le> offset \<Longrightarrow> read_full_loop es p dst sz offset = Done (int offset, dst, p, es)"
  by (cases es) auto

lemma write_full_loop_done: "sz \<le> offset \<Longrightarrow> write_full_loop es p src sz offset = Done (True, p, es)"
  by (cases es) auto

lemma read_full_loop_chunk:
  fixes k :: nat
  assumes "offset < sz" "sz \<le> length dst" "p_data p \<noteq> []"
  defines "n \<equiv> min (Suc k) (min (sz - offset) (length (p_data p)))"
  shows "read_full_loop (RChunk k # es) p dst sz offset =
    read_full_loop es (p\<lparr>p_data := drop n (p_data p)\<rparr>)
      (take offset dst @ take n (p_data p) @ drop (offset + n) dst) sz (offset + n)"
    and "0 < n" "offset + n \<le> sz" "n \<le> length (p_data p)"
proof -
  show "0 < n" "offset + n \<le> sz" "n \<le> length (p_data p)" using assms by auto
  then show "read_full_loop (RChunk k # es) p dst sz offset =
    read_full_loop es (p\<lparr>p_data := drop n (p_data p)\<rparr>)
      (take offset dst @ take n (p_data p) @ drop (offset + n) dst) sz (offset + n)"
    using assms(1-3) by (simp add: buf_store_def Let_def flip: n_def)
qed

text \<open>Whatever the schedule: a full read takes exactly the next bytes of the pipe.\<close>

lemma read_full_loop_result:
  assumes "read_full_loop es p dst sz offset = Done (n, dst', p', es')" "offset \<le> sz" "sz \<le> length dst"
  shows "(n = int sz \<and> sz - offset \<le> length (p_data p) \<and>
        dst' = take offset dst @ take (sz - offset) (p_data p) @ drop sz dst \<and>
        p' = p\<lparr>p_data := drop (sz - offset) (p_data p)\<rparr>)
     \<or> n = - 1
     \<or> n = 0 \<and> offset = 0 \<and> p_data p = [] \<and> \<not> p_open p \<and> p' = p \<and> dst' = dst"
  using assms
proof (induction es arbitrary: p dst offset)
  case Nil
  then show ?case by (auto split: if_splits)
next
  case (Cons e es)
  show ?case
  proof (cases "offset < sz")
    case False
    with Cons.prems show ?thesis by auto
  next
    case True
    show ?thesis
    proof (cases e)
      case RIntr
      with True Cons.prems Cons.IH [of p dst offset] show ?thesis by simp
    next
      case RFail
      with True Cons.prems show ?thesis by simp
    next
      case (RChunk k)
      show ?thesis
      proof (cases "p_data p = []")
        case True
        with \<open>offset < sz\<close> RChunk Cons.prems show ?thesis by (auto split: if_splits)
      next
        case False
        define n1 where "n1 = min (Suc k) (min (sz - offset) (length (p_data p)))"
        note c = read_full_loop_chunk(1) [OF True Cons.prems(3) False, where k = k and es = es, folded n1_def]
          read_full_loop_chunk(2-4) [OF True Cons.prems(3) False, where k = k, folded n1_def]
        let ?p = "p\<lparr>p_data := drop n1 (p_data p)\<rparr>"
        let ?dst = "take offset dst @ take n1 (p_data p) @ drop (offset + n1) dst"
        have "length ?dst = length dst" using c Cons.prems by simp
        moreover have "read_full_loop es ?p ?dst sz (offset + n1) = Done (n, dst', p', es')"
          using Cons.prems(1) c(1) RChunk by simp
        ultimately consider
          "n = int sz" "sz - (offset + n1) \<le> length (drop n1 (p_data p))"
            "dst' = take (offset + n1) ?dst @ take (sz - (offset + n1)) (drop n1 (p_data p)) @ drop sz ?dst"
            "p' = ?p\<lparr>p_data := drop (sz - (offset + n1)) (drop n1 (p_data p))\<rparr>"
          | "n = - 1"
          using Cons.IH [of ?p ?dst "offset + n1"] c Cons.prems by auto
        then show ?thesis
        proof cases
          case 1
          have "sz - offset = n1 + (sz - (offset + n1))" using c by simp
          then have "take (sz - offset) (p_data p) =
              take n1 (p_data p) @ take (sz - (offset + n1)) (drop n1 (p_data p))"
            "drop (sz - offset) (p_data p) = drop (sz - (offset + n1)) (drop n1 (p_data p))"
            by (metis take_add, metis drop_drop add.commute)
          moreover have "take (offset + n1) ?dst = take offset dst @ take n1 (p_data p)"
            using c Cons.prems True by simp
          moreover have "drop sz ?dst = drop sz dst" using c Cons.prems True by simp
          ultimately show ?thesis using 1 c by simp
        next
          case 2
          then show ?thesis by simp
        qed
      qed
    qed
  qed
qed

lemma read_full_loop_safe:
  assumes "offset \<le> sz" "sz \<le> length dst"
  shows "read_full_loop es p dst sz offset \<noteq> Fault"
  using assms
proof (induction es arbitrary: p dst offset)
  case (Cons e es)
  show ?case
  proof (cases "e \<noteq> RIntr \<and> e \<noteq> RFail \<and> offset < sz \<and> p_data p \<noteq> []")
    case True
    then obtain k where "e = RChunk k" by (cases e) auto
    with True Cons.prems read_full_loop_chunk [of offset sz dst p k] Cons.IH show ?thesis by simp
  next
    case False
    with Cons show ?thesis by (cases e) auto
  qed
qed simp

lemma read_full_loop_delivers:
  assumes "read_sched_ok (sz - offset) es" "sz - offset \<le> length (p_data p)"
    "offset \<le> sz" "sz \<le> length dst"
  shows "\<exists>es'. read_full_loop es p dst sz offset =
      Done (int sz, take offset dst @ take (sz - offset) (p_data p) @ drop sz dst,
            p\<lparr>p_data := drop (sz - offset) (p_data p)\<rparr>, es')
    \<and> RFail \<notin> set es' \<and> rchunks es \<le> rchunks es' + (sz - offset)"
proof -
  have "\<exists>n dst' p' es'. read_full_loop es p dst sz offset = Done (n, dst', p', es') \<and> n \<noteq> - 1 \<and>
     RFail \<notin> set es' \<and> rchunks es \<le> rchunks es' + (sz - offset) \<and> (n = 0 \<longrightarrow> sz = 0)"
    using assms
  proof (induction es arbitrary: p dst offset)
    case Nil
    then show ?case by (auto simp: read_sched_ok_def)
  next
    case (Cons e es)
    show ?case
    proof (cases "offset < sz")
      case False
      with Cons.prems show ?thesis by (auto simp: read_sched_ok_def)
    next
      case True
      show ?thesis
      proof (cases e)
        case RIntr
        with True Cons.prems Cons.IH [of offset p dst] show ?thesis by (auto simp: read_sched_ok_def)
      next
        case RFail
        with Cons.prems show ?thesis by (simp add: read_sched_ok_def)
      next
        case (RChunk k)
        have ne: "p_data p \<noteq> []" using True Cons.prems(2) by auto
        define n where "n = min (Suc k) (min (sz - offset) (length (p_data p)))"
        note c = read_full_loop_chunk(1) [OF True Cons.prems(4) ne, where k = k and es = es, folded n_def]
          read_full_loop_chunk(2-4) [OF True Cons.prems(4) ne, where k = k, folded n_def]
        let ?p = "p\<lparr>p_data := drop n (p_data p)\<rparr>"
        let ?dst = "take offset dst @ take n (p_data p) @ drop (offset + n) dst"
        have "read_sched_ok (sz - (offset + n)) es" "sz - (offset + n) \<le> length (p_data ?p)"
          "sz \<le> length ?dst"
          using c Cons.prems RChunk by (auto simp: read_sched_ok_def)
        then obtain m dst' p' es' where "read_full_loop es ?p ?dst sz (offset + n) = Done (m, dst', p', es')"
          "m \<noteq> - 1" "RFail \<notin> set es'" "rchunks es \<le> rchunks es' + (sz - (offset + n))"
          "m = 0 \<longrightarrow> sz = 0"
          using Cons.IH [of "offset + n" ?p ?dst] c(3) by blast
        then show ?thesis using c RChunk by simp
      qed
    qed
  qed
  then obtain n dst' p' es' where r: "read_full_loop es p dst sz offset = Done (n, dst', p', es')"
    "n \<noteq> - 1" "RFail \<notin> set es'" "rchunks es \<le> rchunks es' + (sz - offset)" "n = 0 \<longrightarrow> sz = 0"
    by blast
  with read_full_loop_result [OF r(1) assms(3,4)] show ?thesis by auto
qed

lemma write_full_loop_chunk:
  fixes k :: nat
  assumes "offset < sz" "sz \<le> length src"
  defines "n \<equiv> min (Suc k) (sz - offset)"
  shows "write_full_loop (WChunk k # es) p src sz offset =
    write_full_loop es (p\<lparr>p_data := p_data p @ take n (drop offset src)\<rparr>) src sz (offset + n)"
    and "0 < n" "offset + n \<le> sz"
proof -
  show "0 < n" "offset + n \<le> sz" using assms by auto
  then show "write_full_loop (WChunk k # es) p src sz offset =
    write_full_loop es (p\<lparr>p_data := p_data p @ take n (drop offset src)\<rparr>) src sz (offset + n)"
    using assms(1,2) by (simp add: buf_read_def Let_def flip: n_def)
qed

lemma take_drop_split:
  "offset + n \<le> sz \<Longrightarrow>
     take n (drop offset xs) @ take m (drop (offset + n) xs) = take (n + m) (drop offset xs)"
  by (metis add.commute drop_drop take_add)

lemma write_full_loop_result:
  assumes "write_full_loop es p src sz offset = Done (ok, p', es')" "offset \<le> sz" "sz \<le> length src"
  shows "\<exists>m\<le> sz - offset. p' = p\<lparr>p_data := p_data p @ take m (drop offset src)\<rparr> \<and>
    (ok \<longrightarrow> m = sz - offset)"
  using assms
proof (induction es arbitrary: p offset)
  case Nil
  then show ?case by (auto intro!: exI [of _ 0] split: if_splits)
next
  case (Cons e es)
  show ?case
  proof (cases "offset < sz")
    case False
    with Cons.prems show ?thesis by (auto intro!: exI [of _ 0])
  next
    case True
    show ?thesis
    proof (cases e)
      case (WChunk k)
      define n where "n = min (Suc k) (sz - offset)"
      note c = write_full_loop_chunk(1) [OF True Cons.prems(3), where k = k and es = es, folded n_def]
        write_full_loop_chunk(2-3) [OF True Cons.prems(3), where k = k, folded n_def]
      let ?p = "p\<lparr>p_data := p_data p @ take n (drop offset src)\<rparr>"
      obtain m where m: "m \<le> sz - (offset + n)"
        "p' = ?p\<lparr>p_data := p_data ?p @ take m (drop (offset + n) src)\<rparr>" "ok \<longrightarrow> m = sz - (offset + n)"
        using Cons.IH [of ?p "offset + n"] Cons.prems c WChunk by auto
      then have "p' = p\<lparr>p_data := p_data p @ take (n + m) (drop offset src)\<rparr>"
        using take_drop_split [OF c(3), of src m] by simp
      then show ?thesis using m c by (intro exI [of _ "n + m"]) auto
    qed (use True Cons in \<open>auto intro!: exI [of _ 0]\<close>)
  qed
qed

lemma write_full_loop_safe:
  "offset \<le> sz \<Longrightarrow> sz \<le> length src \<Longrightarrow> write_full_loop es p src sz offset \<noteq> Fault"
proof (induction es arbitrary: p offset)
  case (Cons e es)
  show ?case
  proof (cases "offset < sz \<and> (\<exists>k. e = WChunk k)")
    case True
    then obtain k where "e = WChunk k" by blast
    with True Cons write_full_loop_chunk [of offset sz src k] show ?thesis by simp
  next
    case False
    with Cons show ?thesis by (cases e) auto
  qed
qed simp

lemma write_full_loop_delivers:
  assumes "write_sched_ok (sz - offset) es" "offset \<le> sz" "sz \<le> length src"
  shows "\<exists>es'. write_full_loop es p src sz offset =
      Done (True, p\<lparr>p_data := p_data p @ take (sz - offset) (drop offset src)\<rparr>, es')
    \<and> WFail \<notin> set es' \<and> WZero \<notin> set es' \<and> wchunks es \<le> wchunks es' + (sz - offset)"
proof -
  have "\<exists>p' es'. write_full_loop es p src sz offset = Done (True, p', es') \<and>
     WFail \<notin> set es' \<and> WZero \<notin> set es' \<and> wchunks es \<le> wchunks es' + (sz - offset)"
    using assms
  proof (induction es arbitrary: p offset)
    case Nil
    then show ?case by (auto simp: write_sched_ok_def)
  next
    case (Cons e es)
    show ?case
    proof (cases "offset < sz")
      case False
      with Cons.prems show ?thesis by (auto simp: write_sched_ok_def)
    next
      case True
      show ?thesis
      proof (cases e)
        case (WChunk k)
        define n where "n = min (Suc k) (sz - offset)"
        note c = write_full_loop_chunk(1) [OF True Cons.prems(3), where k = k and es = es, folded n_def]
          write_full_loop_chunk(2-3) [OF True Cons.prems(3), where k = k, folded n_def]
        have "write_sched_ok (sz - (offset + n)) es"
          using c Cons.prems WChunk by (auto simp: write_sched_ok_def)
        then obtain p' es' where "write_full_loop es (p\<lparr>p_data := p_data p @ take n (drop offset src)\<rparr>)
            src sz (offset + n) = Done (True, p', es')"
          "WFail \<notin> set es'" "WZero \<notin> set es'" "wchunks es \<le> wchunks es' + (sz - (offset + n))"
          using Cons.IH [of "offset + n"] c(3) Cons.prems by blast
        then show ?thesis using c WChunk by simp
      qed (use True Cons in \<open>auto simp: write_sched_ok_def\<close>)
    qed
  qed
  then obtain p' es' where r: "write_full_loop es p src sz offset = Done (True, p', es')"
    "WFail \<notin> set es'" "WZero \<notin> set es'" "wchunks es \<le> wchunks es' + (sz - offset)" by blast
  with write_full_loop_result [OF r(1) assms(2,3)] show ?thesis by auto
qed

section \<open>Sizes\<close>

lemma length_le_bytes [simp]: "length (le_bytes k n) = k"
  by (induction k arbitrary: n) auto

lemma length_size_t_bytes [simp]: "length (size_t_bytes n) = 8"
  by (simp add: size_t_bytes_def sizeof_size_t_def)

lemma le_value_le_bytes: "n < 256 ^ k \<Longrightarrow> le_value (le_bytes k n) = n"
proof (induction k arbitrary: n)
  case (Suc k)
  then have "le_value (le_bytes k (n div 256)) = n div 256"
    by (simp add: div_less_iff_less_mult mult.commute)
  then show ?case by (simp add: unat_of_nat)
qed simp

lemma le_value_size_t_bytes: "n < 2 ^ 64 \<Longrightarrow> le_value (size_t_bytes n) = n"
  using le_value_le_bytes [of n 8] by (simp add: size_t_bytes_def sizeof_size_t_def)

section \<open>Requests\<close>

text \<open>The frame a password travels in: its size with the terminator, then the bytes.\<close>

definition request_frame :: "byte list \<Rightarrow> byte list" where
  "request_frame text = size_t_bytes (length text + 1) @ text @ [0]"

definition sbuf_text :: "sbuf_t \<Rightarrow> byte list" where
  "sbuf_text sbuf = (case sb_buf sbuf of None \<Rightarrow> [] | Some (a, b) \<Rightarrow> take (sb_len sbuf) b)"

lemma sbuf_wf_text:
  assumes "sbuf_wf pw" "sb_buf pw = Some (a, b)"
  shows "take (Suc (sb_len pw)) b = sbuf_text pw @ [0]" "length (sbuf_text pw) = sb_len pw"
    "Suc (sb_len pw) \<le> length b"
proof -
  from assms have l: "sb_len pw < length b" "b ! sb_len pw = 0" by (auto simp: sbuf_wf_def)
  with assms show "length (sbuf_text pw) = sb_len pw" "Suc (sb_len pw) \<le> length b"
    by (simp_all add: sbuf_text_def)
  from l have "take (Suc (sb_len pw)) b = take (sb_len pw) b @ [0]" by (metis take_Suc_conv_app_nth)
  with assms show "take (Suc (sb_len pw)) b = sbuf_text pw @ [0]" by (simp add: sbuf_text_def)
qed

text \<open>Any schedule: the buffer is wiped, the pipe has grown by a prefix of the frame, and by
  all of it when the result is \<open>OK\<close>.\<close>

lemma auth_write_request_result:
  assumes "auth_write_request es p pw = Done (res, pw', p', es')" "sbuf_wf pw"
  shows "sbuf_zeroed pw' \<and> sbuf_wf pw' \<and> sb_cap pw' = sb_cap pw \<and> res \<in> {OK, ERR_AUTH_WRITE} \<and>
    (\<exists>m \<le> length (request_frame (sbuf_text pw)).
       p' = p\<lparr>p_data := p_data p @ take m (request_frame (sbuf_text pw))\<rparr> \<and>
       (res = OK \<longrightarrow> m = length (request_frame (sbuf_text pw))))"
proof -
  obtain a b where ab: "sb_buf pw = Some (a, b)" using assms(2) by (auto simp: sbuf_wf_def split: option.splits)
  note t = sbuf_wf_text [OF assms(2) ab]
  obtain pw0 where pw0: "sbuf_clear pw = Done pw0" "sbuf_wf pw0" "sbuf_zeroed pw0" "sb_cap pw0 = sb_cap pw"
    using sbuf_clear_wf [OF assms(2)] by blast
  let ?F = "request_frame (sbuf_text pw)"
  have F: "?F = size_t_bytes (Suc (sb_len pw)) @ take (Suc (sb_len pw)) b" "length ?F = 8 + (Suc (sb_len pw))"
    by (simp_all add: request_frame_def t)
  obtain ok1 p1 es1 where w1: "write_full_loop es p (size_t_bytes (Suc (sb_len pw))) 8 0 = Done (ok1, p1, es1)"
    using assms(1) ab by (auto simp: auth_write_request_def write_full_def sizeof_size_t_def comp_simps)
  obtain m1 where m1: "m1 \<le> 8" "p1 = p\<lparr>p_data := p_data p @ take m1 (size_t_bytes (Suc (sb_len pw)))\<rparr>"
    "ok1 \<longrightarrow> m1 = 8"
    using write_full_loop_result [OF w1] by auto
  show ?thesis
  proof (cases ok1)
    case False
    then have "res = ERR_AUTH_WRITE" "pw' = pw0" "p' = p1"
      using assms(1) ab w1 pw0 by (auto simp: auth_write_request_def write_full_def sizeof_size_t_def)
    moreover have "take m1 ?F = take m1 (size_t_bytes (Suc (sb_len pw)))" using m1 F by simp
    ultimately show ?thesis using m1 pw0 F by (intro conjI exI [of _ m1]) auto
  next
    case True
    obtain ok2 p2 es2 where w2: "write_full_loop es1 p1 b (Suc (sb_len pw)) 0 = Done (ok2, p2, es2)"
      using assms(1) ab w1 True
      by (auto simp: auth_write_request_def write_full_def sizeof_size_t_def comp_simps)
    obtain m2 where m2: "m2 \<le> Suc (sb_len pw)" "p2 = p1\<lparr>p_data := p_data p1 @ take m2 b\<rparr>"
      "ok2 \<longrightarrow> m2 = Suc (sb_len pw)"
      using write_full_loop_result [OF w2] t(3) by auto
    have "res = (if ok2 then OK else ERR_AUTH_WRITE)" "pw' = pw0" "p' = p2"
      using assms(1) ab w1 w2 pw0 True
      by (auto simp: auth_write_request_def write_full_def sizeof_size_t_def)
    moreover have "take (8 + m2) ?F = size_t_bytes (Suc (sb_len pw)) @ take m2 b" using m2 F by simp
    ultimately show ?thesis using m1 m2 pw0 True F by (intro conjI exI [of _ "8 + m2"]) auto
  qed
qed

lemma auth_write_request_delivers:
  assumes "sbuf_wf pw" "write_sched_ok (length (request_frame (sbuf_text pw))) es"
  shows "\<exists>pw' es'. auth_write_request es p pw =
    Done (OK, pw', p\<lparr>p_data := p_data p @ request_frame (sbuf_text pw)\<rparr>, es')"
proof -
  obtain a b where ab: "sb_buf pw = Some (a, b)" using assms(1) by (auto simp: sbuf_wf_def split: option.splits)
  note t = sbuf_wf_text [OF assms(1) ab]
  obtain pw0 where pw0: "sbuf_clear pw = Done pw0" using sbuf_clear_wf [OF assms(1)] by blast
  have len: "length (request_frame (sbuf_text pw)) = 8 + (Suc (sb_len pw))" by (simp add: request_frame_def t)
  obtain es1 where w1: "write_full_loop es p (size_t_bytes (Suc (sb_len pw))) 8 0 =
      Done (True, p\<lparr>p_data := p_data p @ size_t_bytes (Suc (sb_len pw))\<rparr>, es1)"
    "WFail \<notin> set es1" "WZero \<notin> set es1" "wchunks es \<le> wchunks es1 + 8"
    using write_full_loop_delivers [of 8 0 es "size_t_bytes (Suc (sb_len pw))" p] assms(2) len
    by (auto simp: write_sched_ok_def)
  moreover from this have "write_sched_ok (Suc (sb_len pw) - 0) es1"
    using assms(2) len by (simp add: write_sched_ok_def)
  moreover from calculation obtain es2 where
    "write_full_loop es1 (p\<lparr>p_data := p_data p @ size_t_bytes (Suc (sb_len pw))\<rparr>) b (Suc (sb_len pw)) 0 =
      Done (True, p\<lparr>p_data := (p_data p @ size_t_bytes (Suc (sb_len pw))) @ take (Suc (sb_len pw)) b\<rparr>, es2)"
    using write_full_loop_delivers [of "Suc (sb_len pw)" 0 es1 b
        "p\<lparr>p_data := p_data p @ size_t_bytes (Suc (sb_len pw))\<rparr>"] t(3) by auto
  ultimately show ?thesis
    using t ab pw0
    by (simp add: auth_write_request_def write_full_def sizeof_size_t_def request_frame_def)
qed

lemma auth_write_request_safe:
  assumes "sbuf_wf pw"
  shows "auth_write_request es p pw \<noteq> Fault"
proof -
  obtain a b where ab: "sb_buf pw = Some (a, b)" using assms by (auto simp: sbuf_wf_def split: option.splits)
  obtain pw0 where "sbuf_clear pw = Done pw0" using sbuf_clear_wf [OF assms] by blast
  then show ?thesis
    using ab sbuf_wf_text(3) [OF assms ab] write_full_loop_safe
    by (auto simp: auth_write_request_def write_full_def sizeof_size_t_def comp_simps)
qed

lemma read_full_cases:
  assumes "read_full es p dst n = Done (k, dst', p', es')" "length dst = n" "0 < n"
  shows "(k = int n \<and> n \<le> length (p_data p) \<and> dst' = take n (p_data p) \<and>
        p' = p\<lparr>p_data := drop n (p_data p)\<rparr>)
     \<or> k = - 1 \<or> k = 0 \<and> p_data p = [] \<and> \<not> p_open p \<and> p' = p"
  using read_full_loop_result [of es p dst n 0 k dst' p' es'] assms
  by (auto simp: read_full_def)

text \<open>No input makes the receiver touch memory it does not own.\<close>

lemma auth_read_request_safe:
  assumes E: "mem_env_ok E" and st: "sbuf_static_ok E st"
  shows "auth_read_request E st es p pw \<noteq> Fault"
proof
  assume F: "auth_read_request E st es p pw = Fault"
  have "read_full es p (replicate sizeof_size_t 0) sizeof_size_t \<noteq> Fault"
    by (simp add: read_full_def read_full_loop_safe)
  with F obtain n sb p1 es1 where r: "read_full es p (replicate sizeof_size_t 0) sizeof_size_t
      = Done (n, sb, p1, es1)" and n: "0 < n" "le_value sb \<noteq> 0"
    by (auto simp: auth_read_request_def comp_simps Let_def split: if_splits)
  let ?sz = "le_value sb"
  obtain res pw1 st1 where c: "sbuf_create E st pw ?sz = Done (res, pw1, st1)"
    "res = OK \<Longrightarrow> sbuf_zeroed pw1 \<and> sb_cap pw1 = ?sz"
    using sbuf_create_cases [OF E st, of ?sz pw] n(2) by auto
  with F r n have ok: "res = OK" by (auto simp: auth_read_request_def Let_def split: if_splits)
  then obtain a b where b: "sb_buf pw1 = Some (a, b)" "length b = ?sz"
    using c by (auto simp: sbuf_zeroed_def split: option.splits)
  have "read_full es1 p1 b ?sz \<noteq> Fault" using b by (simp add: read_full_def read_full_loop_safe)
  with F r n c ok b obtain m b' p2 es2 where r2: "read_full es1 p1 b ?sz = Done (m, b', p2, es2)"
    "0 < m" "buf_read b' (?sz - 1) 1 = Fault"
    by (auto simp: auth_read_request_def Let_def comp_simps split: if_splits)
  then have "length b' = ?sz" using read_full_cases [OF r2(1) b(2)] n(2) by auto
  then show False using r2(3) n(2) by (auto simp: buf_read_def)
qed

lemma auth_read_request_result:
  assumes E: "mem_env_ok E" and st: "sbuf_static_ok E st"
    and r: "auth_read_request E st es p pw = Done (res, pw', st', p', es')"
    and data: "p_data p = request_frame text @ rest" and len: "length text + 1 < 2 ^ 64"
  shows "res \<in> {OK, ERR_AUTH_READ, ERR_SBUF_ALLOC, ERR_SBUF_LOCK} \<and> sbuf_static_ok E st' \<and>
    (res = OK \<longrightarrow> sbuf_wf pw' \<and> sbuf_text pw' = text \<and> p' = p\<lparr>p_data := rest\<rparr> \<and>
       (\<exists>a. sb_buf pw' = Some (a, text @ [0]) \<and> a mod me_pagesize E = 0))"
proof -
  let ?n = "Suc (length text)"
  have frame: "take 8 (p_data p) = size_t_bytes ?n" "drop 8 (p_data p) = text @ 0 # rest" "p_data p \<noteq> []"
    by (simp_all add: data request_frame_def)
  have v: "le_value (size_t_bytes ?n) = ?n" using len by (simp add: le_value_size_t_bytes)
  obtain k sb p1 es1 where r1: "read_full es p (replicate 8 0) 8 = Done (k, sb, p1, es1)"
    using r by (auto simp: auth_read_request_def sizeof_size_t_def comp_simps)
  show ?thesis
  proof (cases "k = 8")
    case False
    then have "k = - 1" using read_full_cases [OF r1] frame by auto
    then show ?thesis using r r1 st by (auto simp: auth_read_request_def sizeof_size_t_def)
  next
    case True
    then have sb: "sb = size_t_bytes ?n" "p1 = p\<lparr>p_data := text @ 0 # rest\<rparr>"
      using read_full_cases [OF r1] frame by auto
    obtain res1 pw1 st1 where c: "sbuf_create E st pw ?n = Done (res1, pw1, st1)" "sbuf_static_ok E st1"
      "res1 = OK \<and> sbuf_zeroed pw1 \<and> sb_cap pw1 = ?n \<and>
         (\<exists>a b. sb_buf pw1 = Some (a, b) \<and> a mod me_pagesize E = 0)
       \<or> res1 \<in> {ERR_SBUF_ALLOC, ERR_SBUF_LOCK}"
      using sbuf_create_cases [OF E st, of ?n pw] by auto
    show ?thesis
    proof (cases "res1 = OK")
      case False
      then show ?thesis using r r1 sb True v c
        by (auto simp: auth_read_request_def sizeof_size_t_def)
    next
      case ok: True
      then obtain a b where b: "sb_buf pw1 = Some (a, b)" "length b = ?n" "a mod me_pagesize E = 0"
        "sb_cap pw1 = ?n"
        using c by (auto simp: sbuf_zeroed_def split: option.splits)
      obtain m b' p2 es2 where r2: "read_full es1 p1 b ?n = Done (m, b', p2, es2)"
        using r r1 sb True v c ok b by (auto simp: auth_read_request_def sizeof_size_t_def comp_simps)
      have "m = int ?n \<and> b' = text @ [0] \<and> p2 = p\<lparr>p_data := rest\<rparr> \<or> m = - 1"
        using read_full_cases [OF r2 b(2)] sb by auto
      then show ?thesis using r r1 sb True v c ok b r2
        by (auto simp: auth_read_request_def sizeof_size_t_def buf_read_def sbuf_wf_def sbuf_text_def)
    qed
  qed
qed

lemma auth_read_request_delivers:
  assumes E: "mem_env_ok E" and st: "sbuf_static_ok E st"
    and data: "p_data p = request_frame text @ rest" and len: "length text + 1 < 2 ^ 64"
    and alloc: "sbuf_create E st pw (length text + 1) = Done (OK, pw1, st1)"
    and sched: "read_sched_ok (length (request_frame text)) es"
  shows "\<exists>pw' st' p' es'. auth_read_request E st es p pw = Done (OK, pw', st', p', es')"
proof -
  let ?n = "Suc (length text)"
  have frame: "take 8 (p_data p) = size_t_bytes ?n" "drop 8 (p_data p) = text @ 0 # rest"
    "8 \<le> length (p_data p)" "length (request_frame text) = 8 + ?n"
    by (simp_all add: data request_frame_def)
  have v: "le_value (size_t_bytes ?n) = ?n" using len by (simp add: le_value_size_t_bytes)
  obtain es1 where r1: "read_full es p (replicate 8 0) 8 =
      Done (8, size_t_bytes ?n, p\<lparr>p_data := text @ 0 # rest\<rparr>, es1)"
    "RFail \<notin> set es1" "rchunks es \<le> rchunks es1 + 8"
    using read_full_loop_delivers [of 8 0 es p "replicate 8 0"] sched frame
    by (auto simp: read_full_def read_sched_ok_def)
  obtain a b where b: "sb_buf pw1 = Some (a, b)" "length b = ?n"
    using sbuf_create_cases [OF E st, of ?n pw] alloc
    by (auto simp: sbuf_zeroed_def split: option.splits)
  have "read_sched_ok ?n es1" using sched frame r1 by (simp add: read_sched_ok_def)
  then obtain es2 where "read_full es1 (p\<lparr>p_data := text @ 0 # rest\<rparr>) b ?n =
      Done (int ?n, text @ [0], p\<lparr>p_data := rest\<rparr>, es2)"
    using read_full_loop_delivers [of ?n 0 es1 "p\<lparr>p_data := text @ 0 # rest\<rparr>" b] b
    by (auto simp: read_full_def)
  then show ?thesis using r1 v alloc b
    by (simp add: auth_read_request_def sizeof_size_t_def buf_read_def)
qed

lemma auth_read_request_eof:
  "p_data p = [] \<Longrightarrow> \<not> p_open p \<Longrightarrow>
     auth_read_request E st (replicate n RIntr @ RChunk k # es) p pw = Done (ERR_AUTH_EOF, pw, st, p, es)"
  by (induction n) (auto simp: auth_read_request_def read_full_def sizeof_size_t_def)

section \<open>Replies\<close>

lemma auth_write_reply_result:
  assumes "auth_write_reply es p success = Done (res, p', es')"
  shows "res = OK \<and> p' = p\<lparr>p_data := p_data p @ [if success then 1 else 0]\<rparr> \<or>
    res = ERR_AUTH_WRITE"
proof -
  let ?b = "[if success then 1 else 0 :: byte]"
  obtain ok where "write_full_loop es p ?b 1 0 = Done (ok, p', es')"
    "res = (if ok then OK else ERR_AUTH_WRITE)"
    using assms by (auto simp: auth_write_reply_def write_full_def comp_simps)
  with write_full_loop_result [of es p ?b 1 0 ok p' es'] show ?thesis by auto
qed

lemma auth_read_reply_result:
  assumes "auth_read_reply es p old = Done (res, b, p', es')"
    and "p_data p = (if success then 1 else 0) # rest"
  shows "res = OK \<and> b = success \<and> p' = p\<lparr>p_data := rest\<rparr> \<or> res = ERR_AUTH_READ"
proof -
  obtain n d where "read_full es p [if old then 1 else 0] 1 = Done (n, d, p', es')"
    "res = (if n \<le> 0 then ERR_AUTH_READ else OK)" "b \<longleftrightarrow> d \<noteq> [0]"
    using assms by (auto simp: auth_read_reply_def comp_simps)
  with read_full_cases [of es p "[if old then 1 else 0]" 1 n d p' es'] assms(2) show ?thesis by auto
qed

lemma auth_write_reply_data:
  assumes "auth_write_reply es p success = Done (res, p', es')"
  shows "p_open p' = p_open p \<and> (p_data p' = p_data p @ [if success then 1 else 0] \<or> p_data p' = p_data p)"
proof -
  let ?b = "[if success then 1 else 0 :: byte]"
  obtain ok where "write_full_loop es p ?b 1 0 = Done (ok, p', es')"
    using assms by (auto simp: auth_write_reply_def write_full_def comp_simps)
  then obtain m where "p' = p\<lparr>p_data := p_data p @ take m ?b\<rparr>"
    using write_full_loop_result [of es p ?b 1 0 ok p' es'] by auto
  then show ?thesis by (cases m) auto
qed

lemma auth_write_reply_delivers:
  assumes "write_sched_ok 1 es"
  shows "\<exists>es'. auth_write_reply es p success = Done (OK, p\<lparr>p_data := p_data p @ [if success then 1 else 0]\<rparr>, es')"
  using write_full_loop_delivers [of 1 0 es "[if success then 1 else 0]" p] assms
  by (auto simp: auth_write_reply_def write_full_def)

lemma auth_write_reply_safe: "auth_write_reply es p success \<noteq> Fault"
  using write_full_loop_safe by (auto simp: auth_write_reply_def write_full_def comp_simps)

text \<open>What a successful read of a reply says about the byte it took.\<close>

lemma auth_read_reply_OK:
  assumes "auth_read_reply es p old = Done (OK, b, p', es')"
  shows "\<exists>x rest. p_data p = x # rest \<and> b = (x \<noteq> 0) \<and> p' = p\<lparr>p_data := rest\<rparr>"
proof -
  obtain n d where r: "read_full es p [if old then 1 else 0] 1 = Done (n, d, p', es')"
    "0 < n" "b \<longleftrightarrow> d \<noteq> [0]"
    using assms by (auto simp: auth_read_reply_def comp_simps split: if_splits)
  with read_full_cases [OF r(1)] show ?thesis by (cases "p_data p") auto
qed

lemma auth_read_reply_safe: "auth_read_reply es p old \<noteq> Fault"
  by (auto simp: auth_read_reply_def comp_simps read_full_def read_full_loop_safe)

section \<open>The pipe ends after the fork\<close>

lemma auth_spawn_child_ends:
  "auth_spawn_child a b f = SpawnReturns OK e \<Longrightarrow>
     e = \<lparr>req_read = False, req_write = True, rep_read = True, rep_write = False\<rparr>"
  "auth_spawn_child a b f = SpawnRunsChild e ign \<Longrightarrow>
     e = \<lparr>req_read = True, req_write = False, rep_read = False, rep_write = True\<rparr> \<and> ign"
  by (auto simp: auth_spawn_child_def Let_def split: if_splits fork_ret.splits)

section \<open>Properties\<close>

definition demo_pw :: sbuf_t where
  "demo_pw = \<lparr>sb_buf = Some (8192, [104, 105, 0, 9]), sb_cap = 4, sb_len = 2\<rparr>"

lemma demo_pw_wf: "sbuf_wf demo_pw" "sbuf_text demo_pw = [104, 105]"
  by (simp_all add: sbuf_wf_def demo_pw_def sbuf_text_def)





text \<open>
  C19: whatever bytes arrive on the request pipe, and however the \<^verbatim>\<open>read\<close> calls split them,
  the receiver stays inside its buffers.
\<close>

theorem auth_read_request_never_faults:
  assumes "mem_env_ok E" "sbuf_static_ok E st"
  shows "auth_read_request E st es p pw \<noteq> Fault"
  using assms by (rule auth_read_request_safe)

theorem auth_read_request_never_faults_witness:
  "auth_read_request demo_mem sbuf_static_init (replicate 99 (RChunk 9)) \<lparr>p_data = replicate 9 255, p_open = False\<rparr> sbuf_zero \<noteq> Fault"
  by (rule auth_read_request_never_faults [OF demo_mem_ok])

text \<open>
  C20: the verdict survives the pipe: a reply that is written is read as the verdict that was
  sent, or the reader reports an error; it never turns a rejection into a success.
\<close>

theorem reply_roundtrip:
  assumes "auth_write_reply ws p success = Done (OK, p1, ws')" "p_data p = []"
    and "auth_read_reply rs p1 old = Done (res, verdict, p2, rs')"
  shows "res = OK \<and> verdict = success \<and> p_data p2 = [] \<or> res = ERR_AUTH_READ"
proof -
  have "p_data p1 = (if success then 1 else 0) # []"
    using auth_write_reply_result [OF assms(1)] assms(2) by simp
  then show ?thesis using auth_read_reply_result [OF assms(3)] by auto
qed

theorem reply_roundtrip_witness:
  "auth_read_reply [RIntr, RChunk 0] \<lparr>p_data = [0], p_open = True\<rparr> True =
     Done (OK, False, \<lparr>p_data = [], p_open = True\<rparr>, [])"
proof -
  have w: "auth_write_reply [WIntr, WChunk 0] \<lparr>p_data = [], p_open = True\<rparr> False =
    Done (OK, \<lparr>p_data = [0], p_open = True\<rparr>, [])" by code_simp
  have r: "auth_read_reply [RIntr, RChunk 0] \<lparr>p_data = [0], p_open = True\<rparr> True =
     Done (OK, False, \<lparr>p_data = [], p_open = True\<rparr>, [])" by code_simp
  show ?thesis using reply_roundtrip [OF w _ r] r by simp
qed

end
