(* ===== verification/Unicode.thy ===== *)
theory Unicode
  imports Word_Bits
begin

text \<open>
  The UTF-8 routines of \<^verbatim>\<open>src/unicode.c\<close>. \<open>utf8_chsize\<close>, \<open>utf8_encode\<close>,
  \<open>utf8_last_size\<close> and \<open>utf8_size\<close> follow the C functions; a buffer is a byte list and
  the pointer argument of \<open>utf8_encode\<close> is a buffer with an offset, every write checked
  against the end of the buffer. \<open>utf8_bytes\<close> is the pure encoding the loop computes,
  \<open>utf8_decode_one\<close> the decoder of the standard the encoding is checked against
  (\<^verbatim>\<open>unicode.h\<close> declares a decoder, but the sources define none).
\<close>

section \<open>The operations\<close>

definition utf8_chsize :: "u32 \<Rightarrow> nat" where
  "utf8_chsize ch =
     (if ch < 0x80 then 1 else if ch < 0x800 then 2 else if ch < 0x10000 then 3 else 4)"

fun utf8_encode_loop :: "byte list \<Rightarrow> nat \<Rightarrow> nat \<Rightarrow> u32 \<Rightarrow> (byte list \<times> u32) comp" where
  "utf8_encode_loop str off 0 ch = Done (str, ch)"
| "utf8_encode_loop str off (Suc i) ch =
     cbind (buf_write str (off + Suc i) (ucast ((ch AND 0x3f) OR 0x80)))
       (\<lambda>str'. utf8_encode_loop str' off i (drop_bit 6 ch))"

definition utf8_encode :: "byte list \<Rightarrow> nat \<Rightarrow> u32 \<Rightarrow> (byte list \<times> nat) comp" where
  "utf8_encode str off ch =
     (let (first, len) =
        (if ch < 0x80 then (0 :: byte, 1)
         else if ch < 0x800 then (0xc0, 2)
         else if ch < 0x10000 then (0xe0, 3)
         else (0xf0, 4))
      in cbind (utf8_encode_loop str off (len - 1) ch)
           (\<lambda>(str', ch'). cbind (buf_write str' off (ucast (ch' OR ucast first)))
             (\<lambda>str''. Done (str'', len))))"

text \<open>The scan of \<^verbatim>\<open>utf8_last_size\<close>: \<open>pos\<close> walks back from the terminator.\<close>

fun utf8_last_size_loop :: "byte list \<Rightarrow> nat \<Rightarrow> nat \<Rightarrow> nat" where
  "utf8_last_size_loop str 0 len = 0"
| "utf8_last_size_loop str (Suc pos) len =
     (if (str ! pos) AND 0xc0 \<noteq> 0x80 then Suc len
      else utf8_last_size_loop str pos (Suc len))"

definition utf8_last_size :: "byte list \<Rightarrow> nat" where
  "utf8_last_size str = utf8_last_size_loop str (strlen str) 0"

definition utf8_sizes :: "(byte \<times> byte \<times> int) list" where
  "utf8_sizes =
     [(0x80, 0x00, 1), (0xE0, 0xC0, 2), (0xF0, 0xE0, 3), (0xF8, 0xF0, 4),
      (0xFC, 0xF8, 5), (0xFE, 0xF8, 6), (0x80, 0x80, - 1)]"

fun utf8_size_loop :: "(byte \<times> byte \<times> int) list \<Rightarrow> byte \<Rightarrow> int" where
  "utf8_size_loop [] c = - 1"
| "utf8_size_loop ((m, r, octets) # rest) c =
     (if c AND m = r then octets else utf8_size_loop rest c)"

definition utf8_size :: "byte \<Rightarrow> int" where
  "utf8_size c = utf8_size_loop utf8_sizes c"

section \<open>The encoding as a pure function\<close>

definition utf8_cont :: "u32 \<Rightarrow> byte" where
  "utf8_cont ch = ucast ((ch AND 0x3f) OR 0x80)"

definition utf8_bytes :: "u32 \<Rightarrow> byte list" where
  "utf8_bytes ch =
     (if ch < 0x80 then [ucast ch]
      else if ch < 0x800 then [ucast (drop_bit 6 ch OR 0xc0), utf8_cont ch]
      else if ch < 0x10000 then
        [ucast (drop_bit 12 ch OR 0xe0), utf8_cont (drop_bit 6 ch), utf8_cont ch]
      else
        [ucast (drop_bit 18 ch OR 0xf0), utf8_cont (drop_bit 12 ch),
         utf8_cont (drop_bit 6 ch), utf8_cont ch])"

lemma length_utf8_bytes [simp]: "length (utf8_bytes ch) = utf8_chsize ch"
  by (simp add: utf8_bytes_def utf8_chsize_def)

lemma utf8_chsize_bounds: "1 \<le> utf8_chsize ch \<and> utf8_chsize ch \<le> 4"
  by (simp add: utf8_chsize_def)

lemma utf8_chsize_pos [simp]: "0 < utf8_chsize ch"
  by (simp add: utf8_chsize_def)

fun utf8_decode_one :: "byte list \<Rightarrow> (nat \<times> byte list) option" where
  "utf8_decode_one [] = None"
| "utf8_decode_one (b0 # bs) =
     (let n = unat b0 in
      if n < 0x80 then Some (n, bs)
      else if n < 0xC0 then None
      else if n < 0xE0 then
        (case bs of b1 # r \<Rightarrow> Some ((n - 0xC0) * 64 + (unat b1 - 0x80), r) | _ \<Rightarrow> None)
      else if n < 0xF0 then
        (case bs of b1 # b2 # r \<Rightarrow>
           Some (((n - 0xE0) * 64 + (unat b1 - 0x80)) * 64 + (unat b2 - 0x80), r) | _ \<Rightarrow> None)
      else if n < 0xF8 then
        (case bs of b1 # b2 # b3 # r \<Rightarrow>
           Some ((((n - 0xF0) * 64 + (unat b1 - 0x80)) * 64 + (unat b2 - 0x80)) * 64
                 + (unat b3 - 0x80), r) | _ \<Rightarrow> None)
      else None)"

section \<open>The loop computes the pure encoding\<close>

lemma length_cases:
  "length xs = 1 \<Longrightarrow> \<exists>a. xs = [a]"
  "length xs = 2 \<Longrightarrow> \<exists>a b. xs = [a, b]"
  "length xs = 3 \<Longrightarrow> \<exists>a b c. xs = [a, b, c]"
  "length xs = 4 \<Longrightarrow> \<exists>a b c d. xs = [a, b, c, d]"
  by (auto simp: length_Suc_conv eval_nat_numeral)

lemma utf8_encode_loop_unroll:
  "utf8_encode_loop str off (Suc 0) ch =
     cbind (buf_write str (Suc off) (utf8_cont ch)) (\<lambda>str1. Done (str1, drop_bit 6 ch))"
  "utf8_encode_loop str off 2 ch =
     cbind (buf_write str (off + 2) (utf8_cont ch))
       (\<lambda>str1. utf8_encode_loop str1 off (Suc 0) (drop_bit 6 ch))"
  "utf8_encode_loop str off 3 ch =
     cbind (buf_write str (off + 3) (utf8_cont ch))
       (\<lambda>str1. utf8_encode_loop str1 off 2 (drop_bit 6 ch))"
  by (simp_all add: utf8_cont_def numeral_2_eq_2 numeral_3_eq_3)

lemma utf8_encode_at:
  assumes "length mid = utf8_chsize ch"
  shows "utf8_encode (pre @ mid @ post) (length pre) ch
    = Done (pre @ utf8_bytes ch @ post, utf8_chsize ch)"
proof -
  note [simp] = utf8_encode_def utf8_bytes_def buf_write_def list_update_append
    utf8_encode_loop_unroll
  note [simp del] = utf8_encode_loop.simps(2)
  consider "ch < 0x80" | "\<not> ch < 0x80" "ch < 0x800" | "\<not> ch < 0x80" "\<not> ch < 0x800" "ch < 0x10000"
    | "\<not> ch < 0x80" "\<not> ch < 0x800" "\<not> ch < 0x10000" by blast
  then show ?thesis
  proof cases
    case 1
    then obtain a where "mid = [a]" using length_cases(1) [of mid] assms by (auto simp: utf8_chsize_def)
    with 1 show ?thesis by (simp add: utf8_chsize_def)
  next
    case 2
    then obtain a b where "mid = [a, b]"
      using length_cases(2) [of mid] assms by (auto simp: utf8_chsize_def)
    with 2 show ?thesis by (simp add: utf8_chsize_def)
  next
    case 3
    then obtain a b c where "mid = [a, b, c]"
      using length_cases(3) [of mid] assms by (auto simp: utf8_chsize_def)
    with 3 show ?thesis by (simp add: utf8_chsize_def)
  next
    case 4
    then obtain a b c d where "mid = [a, b, c, d]"
      using length_cases(4) [of mid] assms by (auto simp: utf8_chsize_def)
    with 4 show ?thesis by (simp add: utf8_chsize_def)
  qed
qed

lemma utf8_encode_correct:
  assumes "off + utf8_chsize ch \<le> length str"
  shows "utf8_encode str off ch =
    Done (take off str @ utf8_bytes ch @ drop (off + utf8_chsize ch) str, utf8_chsize ch)"
proof -
  let ?k = "utf8_chsize ch"
  have "str = take off str @ take ?k (drop off str) @ drop (off + ?k) str"
    by (metis append_take_drop_id drop_drop add.commute)
  then show ?thesis
    using utf8_encode_at [of "take ?k (drop off str)" ch "take off str" "drop (off + ?k) str"] assms
    by simp
qed

section \<open>Values of the encoded bytes\<close>

lemma unat_cont: "unat (utf8_cont ch) = unat ch mod 64 + 128"
  by (simp add: utf8_cont_def unat_ucast_byte unsigned_or_eq unat_and_3f nat_or_128)

lemmas utf8_arith = unat_ucast_byte unsigned_or_eq unat_drop unat_cont nat_or_192 nat_or_224 nat_or_240

lemma utf8_ranges:
  fixes n :: nat
  shows "n < 0x800 \<Longrightarrow> n div 64 < 32" "n < 0x10000 \<Longrightarrow> n div 4096 < 16"
    "n < 0x200000 \<Longrightarrow> n div 262144 < 8"
  by (simp_all add: div_less_iff_less_mult)

lemma cont_masked: "utf8_cont ch AND 0xc0 = 0x80"
proof -
  have "64 * ((unat ch mod 64 + 128) div 64) = 128" by (simp add: div_add_self2)
  then have "unat (utf8_cont ch AND 0xc0) = unat (0x80 :: byte)" by (simp add: unat_and_prefix(2) unat_cont)
  then show ?thesis by (rule word_unat_eq_iff [THEN iffD2])
qed

lemma lead4_ge: "240 \<le> unat (ucast (w OR 0xf0 :: u32) :: byte)"
proof -
  have "(ucast (w OR 0xf0) :: byte) = ucast w OR 0xf0"
    by (rule bit_word_eqI) (simp add: bit_simps)
  then have "(0xf0 :: byte) \<le> ucast (w OR 0xf0)" by (metis le_word_or2 or.commute)
  then show ?thesis by (simp add: word_le_nat_alt)
qed

text \<open>The first byte of an encoding is no continuation byte, for every 32-bit value.\<close>

lemma lead_range: "unat (hd (utf8_bytes ch)) < 128 \<or> 192 \<le> unat (hd (utf8_bytes ch))"
proof (cases "ch < 0x10000")
  case True
  define n where "n = unat ch"
  have n: "n < 0x10000" using True by (simp add: n_def word_less_nat_alt)
  show ?thesis using utf8_ranges [of n] n
    by (simp add: n_def [symmetric] utf8_bytes_def utf8_arith word_less_nat_alt)
next
  case False
  then have "\<not> ch < 0x80" "\<not> ch < 0x800" by (auto simp: word_less_nat_alt)
  with False show ?thesis using lead4_ge [of "drop_bit 18 ch"] by (simp add: utf8_bytes_def)
qed

lemma lead_not_masked: "hd (utf8_bytes ch) AND 0xc0 \<noteq> 0x80"
proof -
  have "unat (hd (utf8_bytes ch) AND 0xc0) \<noteq> unat (0x80 :: byte)"
    using lead_range [of ch]
    unfolding unat_and_prefix(2) by (auto simp: div_le_mono [of 192 _ 64, simplified])
  then show ?thesis by metis
qed

lemma utf8_bytes_Cons: "\<exists>b cs. utf8_bytes ch = b # cs \<and> (\<forall>c\<in>set cs. c AND 0xc0 = 0x80)"
  by (simp add: utf8_bytes_def cont_masked)

lemma utf8_bytes_nonzero:
  assumes "ch \<noteq> 0"
  shows "0 \<notin> set (utf8_bytes ch)"
proof -
  have c: "utf8_cont x \<noteq> 0" for x using cont_masked [of x] by auto
  have "0 < unat ch" using assms by (simp add: unat_gt_0)
  moreover have "ucast (w OR 0xf0 :: u32) \<noteq> (0 :: byte)" for w using lead4_ge [of w] by auto
  moreover have "\<not> ch < 0x80 \<and> \<not> ch < 0x800" if "\<not> ch < 0x10000"
    using that by (auto simp: word_less_nat_alt)
  moreover have "hd (utf8_bytes ch) \<noteq> 0" if "ch < 0x10000"
    using that calculation(1)
    by (auto simp: utf8_bytes_def byte_eq_iff utf8_arith word_less_nat_alt)
  ultimately show ?thesis using c by (cases "ch < 0x10000") (auto simp: utf8_bytes_def)
qed

section \<open>Decoding, sizes and the scan for the last character\<close>

lemma utf8_decode_bytes:
  assumes "ch < 0x200000"
  shows "utf8_decode_one (utf8_bytes ch @ rest) = Some (unat ch, rest)"
proof -
  define n where "n = unat ch"
  have n: "n < 0x200000" using assms by (simp add: n_def word_less_nat_alt)
  note [simp] = n_def [symmetric] utf8_bytes_def Let_def utf8_arith word_less_nat_alt
  consider "n < 0x80" | "0x80 \<le> n" "n < 0x800" | "0x800 \<le> n" "n < 0x10000"
    | "0x10000 \<le> n" by linarith
  then show ?thesis
  proof cases
    case 2
    then show ?thesis using utf8_ranges(1) [of n] by simp
  next
    case 3
    then show ?thesis using utf8_ranges(2) [of n] base64_digits3 [of n] by simp
  next
    case 4
    then show ?thesis using utf8_ranges(3) [of n] n base64_digits4 [of n] by simp
  qed simp
qed

lemma utf8_row_iff:
  fixes n :: nat
  shows "128 * (n div 128) = 0 \<longleftrightarrow> 0 \<le> n \<and> n < 128"
    and "32 * (n div 32) = 192 \<longleftrightarrow> 192 \<le> n \<and> n < 224"
    and "16 * (n div 16) = 224 \<longleftrightarrow> 224 \<le> n \<and> n < 240"
    and "8 * (n div 8) = 240 \<longleftrightarrow> 240 \<le> n \<and> n < 248"
    and "4 * (n div 4) = 248 \<longleftrightarrow> 248 \<le> n \<and> n < 252"
    and "2 * (n div 2) = 248 \<longleftrightarrow> 248 \<le> n \<and> n < 250"
  by (rule mult_div_eq_iff [where m = 0] mult_div_eq_iff [where m = 6]
      mult_div_eq_iff [where m = 14] mult_div_eq_iff [where m = 30]
      mult_div_eq_iff [where m = 62] mult_div_eq_iff [where m = 124]; simp)+

lemma utf8_size_ranges:
  "utf8_size b =
    (let n = unat b in
     if n < 0x80 then 1 else if n < 0xC0 then - 1 else if n < 0xE0 then 2
     else if n < 0xF0 then 3 else if n < 0xF8 then 4 else if n < 0xFC then 5 else - 1)"
proof -
  define n where "n = unat b"
  have u: "unat (0 :: byte) = 0" "unat (0xC0 :: byte) = 192" "unat (0xE0 :: byte) = 224"
    "unat (0xF0 :: byte) = 240" "unat (0xF8 :: byte) = 248" by simp_all
  have "utf8_size b =
    (if 0 \<le> n \<and> n < 128 then 1 else if 192 \<le> n \<and> n < 224 then 2
     else if 224 \<le> n \<and> n < 240 then 3 else if 240 \<le> n \<and> n < 248 then 4
     else if 248 \<le> n \<and> n < 252 then 5 else if 248 \<le> n \<and> n < 250 then 6 else - 1)"
    unfolding utf8_size_def utf8_sizes_def utf8_size_loop.simps byte_eq_iff unat_and_prefix
      n_def [symmetric] u utf8_row_iff
    by (simp only: if_cancel)
  then show ?thesis by (simp add: n_def [symmetric])
qed

lemma utf8_last_size_loop_char:
  assumes "\<And>i. i < k \<Longrightarrow> str ! (p + Suc i) AND 0xc0 = 0x80" and "str ! p AND 0xc0 \<noteq> 0x80"
  shows "utf8_last_size_loop str (p + Suc k) n = n + Suc k"
  using assms by (induction k arbitrary: n) auto

lemma utf8_last_size_append:
  assumes "0 \<notin> set pre" "ch \<noteq> 0"
  shows "utf8_last_size (pre @ utf8_bytes ch @ 0 # rest) = utf8_chsize ch"
proof -
  obtain b cs where bs: "utf8_bytes ch = b # cs" and cs: "\<forall>c\<in>set cs. c AND 0xc0 = 0x80"
    using utf8_bytes_Cons by blast
  have "strlen ((pre @ utf8_bytes ch) @ 0 # rest) = length pre + Suc (length cs)"
    using assms utf8_bytes_nonzero [of ch]
    by (subst strlen_append_NUL) (auto simp: bs simp flip: length_utf8_bytes)
  moreover have "utf8_last_size_loop (pre @ b # cs @ 0 # rest) (length pre + Suc (length cs)) 0
      = 0 + Suc (length cs)"
  proof (rule utf8_last_size_loop_char)
    show "(pre @ b # cs @ 0 # rest) ! (length pre + Suc i) AND 0xc0 = 0x80" if "i < length cs" for i
      using that cs by (simp add: nth_append)
    show "(pre @ b # cs @ 0 # rest) ! length pre AND 0xc0 \<noteq> 0x80"
      using lead_not_masked [of ch] by (simp add: bs)
  qed
  ultimately show ?thesis
    by (simp add: utf8_last_size_def bs flip: length_utf8_bytes)
qed

section \<open>Prefix codes\<close>

text \<open>
  The interface the password buffer needs of a character encoding: a character is a lead unit
  followed by continuation units, and different characters have different encodings. Then a
  text is determined by its units.
\<close>

locale character_code =
  fixes enc :: "'c \<Rightarrow> 'u list" and cont :: "'u \<Rightarrow> bool" and valid :: "'c \<Rightarrow> bool"
  assumes enc_shape: "valid c \<Longrightarrow> \<exists>u us. enc c = u # us \<and> \<not> cont u \<and> (\<forall>v\<in>set us. cont v)"
    and enc_inj: "valid c \<Longrightarrow> valid d \<Longrightarrow> enc c = enc d \<Longrightarrow> c = d"
begin

lemma text_units_start:
  "\<forall>c\<in>set cs. valid c \<Longrightarrow> concat (map enc cs) = [] \<or> \<not> cont (hd (concat (map enc cs)))"
  using enc_shape by (cases cs) force+

lemma enc_prefix:
  assumes "valid c" "xs = [] \<or> \<not> cont (hd xs)"
  shows "enc c = hd (enc c @ xs) # takeWhile cont (tl (enc c @ xs))"
proof -
  obtain u us where u: "enc c = u # us" "\<forall>v\<in>set us. cont v" using enc_shape assms(1) by blast
  have "takeWhile cont xs = []" using assms(2) by (cases xs) auto
  then show ?thesis using u by simp
qed

lemma text_determined:
  assumes "\<forall>c\<in>set cs. valid c" "\<forall>c\<in>set ds. valid c"
    and "concat (map enc cs) = concat (map enc ds)"
  shows "cs = ds"
  using assms
proof (induction cs arbitrary: ds)
  case Nil
  then show ?case using enc_shape by (cases ds) force+
next
  case (Cons c cs)
  obtain d ds' where ds: "ds = d # ds'"
    using Cons.prems enc_shape by (cases ds) force+
  let ?x = "concat (map enc cs)" and ?y = "concat (map enc ds')"
  have eq: "enc c @ ?x = enc d @ ?y" using Cons.prems(3) ds by simp
  have v: "valid c" "valid d" and x: "?x = [] \<or> \<not> cont (hd ?x)" and y: "?y = [] \<or> \<not> cont (hd ?y)"
    using text_units_start [of cs] text_units_start [of ds'] Cons.prems ds by auto
  have "enc c = enc d"
    by (rule trans [OF enc_prefix [OF v(1) x, unfolded eq] enc_prefix [OF v(2) y, symmetric]])
  then have "?x = ?y" and "c = d" using eq enc_inj v by simp_all
  moreover have "cs = ds'" using Cons.IH [of ds'] Cons.prems(1,2) ds \<open>?x = ?y\<close> by simp
  ultimately show ?case using ds by simp
qed

end

lemma utf8_bytes_inj:
  assumes "c < 0x200000" "d < 0x200000" "utf8_bytes c = utf8_bytes d"
  shows "c = d"
proof -
  have "Some (unat c, []) = Some (unat d, [])"
    using utf8_decode_bytes [OF assms(1), of "[]"] utf8_decode_bytes [OF assms(2), of "[]"] assms(3)
    by simp
  then show ?thesis by (simp add: word_unat_eq_iff)
qed

interpretation utf8: character_code utf8_bytes "\<lambda>b. b AND 0xc0 = 0x80" "\<lambda>ch. ch < 0x200000"
proof unfold_locales
  fix c :: u32
  show "\<exists>u us. utf8_bytes c = u # us \<and> \<not> u AND 0xc0 = 0x80 \<and> (\<forall>v\<in>set us. v AND 0xc0 = 0x80)"
    using utf8_bytes_Cons [of c] lead_not_masked [of c] by auto
qed (rule utf8_bytes_inj)

section \<open>Properties\<close>

text \<open>
  C32: encoding a character below \<open>0x200000\<close> into a buffer with room writes exactly the bytes of
  the character, touches nothing else, and decoding them gives the character back.
\<close>

theorem utf8_encode_decode:
  assumes "ch < 0x200000" "off + utf8_chsize ch \<le> length str"
  shows "\<exists>str'. utf8_encode str off ch = Done (str', utf8_chsize ch) \<and> length str' = length str \<and>
    take off str' = take off str \<and> drop (off + utf8_chsize ch) str' = drop (off + utf8_chsize ch) str \<and>
    utf8_decode_one (drop off str') = Some (unat ch, drop (off + utf8_chsize ch) str)"
  using assms utf8_encode_correct [OF assms(2)] utf8_decode_bytes [OF assms(1)] by simp

theorem utf8_encode_decode_witness:
  "\<exists>str'. utf8_encode [1, 2, 3, 4, 5] 1 0x20AC = Done (str', 3) \<and> length str' = 5 \<and>
    utf8_decode_one (drop 1 str') = Some (0x20AC, [5])"
  using utf8_encode_decode [of "0x20AC" 1 "[1, 2, 3, 4, 5]"] by (auto simp: utf8_chsize_def)

text \<open>
  C33: the number of bytes \<open>utf8_last_size\<close> finds at the end of a terminated text is the
  number of bytes \<open>utf8_encode\<close> wrote for its last character, whatever precedes it, so erasing
  them removes that character.
\<close>

theorem utf8_last_size_encoded:
  assumes "0 \<notin> set pre" "ch \<noteq> 0"
    and "utf8_encode (pre @ room) (length pre) ch = Done (str', n)" "utf8_chsize ch < length room"
  shows "utf8_last_size (str'[length pre + n := 0]) = n"
proof -
  have e: "utf8_encode (pre @ room) (length pre) ch =
      Done (pre @ utf8_bytes ch @ drop (utf8_chsize ch) room, utf8_chsize ch)"
    using utf8_encode_correct [of "length pre" ch "pre @ room"] assms(4) by simp
  obtain x rest where "drop (utf8_chsize ch) room = x # rest"
    using assms(4) by (metis Cons_nth_drop_Suc)
  then have "str'[length pre + n := 0] = pre @ utf8_bytes ch @ 0 # rest" "n = utf8_chsize ch"
    using assms(3) e list_update_append_at [of "length pre + n" "pre @ utf8_bytes ch" x rest 0]
    by auto
  then show ?thesis using utf8_last_size_append [OF assms(1,2)] by simp
qed

theorem utf8_last_size_encoded_witness:
  "utf8_last_size [0x41, 0xC3, 0xA9, 0, 9] = 2"
proof -
  have "utf8_encode ([0x41] @ [7, 7, 7, 9]) (length [0x41 :: byte]) 0xE9 = Done ([0x41, 0xC3, 0xA9, 7, 9], 2)"
    by (subst utf8_encode_correct) (simp_all add: utf8_chsize_def utf8_bytes_def utf8_cont_def)
  from utf8_last_size_encoded [OF _ _ this] show ?thesis by (simp add: utf8_chsize_def)
qed

text \<open>
  the table of \<open>utf8_size\<close> gives for the first byte of every encoded character the length
  of its encoding and the error value for a continuation byte; its row for six bytes is never
  reached.
\<close>

theorem utf8_size_of_lead:
  assumes "ch < 0x200000"
  shows "utf8_size (hd (utf8_bytes ch)) = int (utf8_chsize ch) \<and> utf8_size (utf8_cont x) = - 1 \<and> utf8_size b \<noteq> 6"
proof -
  define n where "n = unat ch"
  have n: "n < 0x200000" using assms by (simp add: n_def word_less_nat_alt)
  have "utf8_size (hd (utf8_bytes ch)) = int (utf8_chsize ch)"
    using utf8_ranges [of n] n
    by (auto simp add: utf8_size_ranges Let_def n_def [symmetric] utf8_bytes_def utf8_chsize_def utf8_arith word_less_nat_alt)
  moreover have "unat (utf8_cont x) < 0xC0" "0x80 \<le> unat (utf8_cont x)"
    using mod_less_divisor [of 64 "unat x"] by (simp_all add: unat_cont)
  then have "utf8_size (utf8_cont x) = - 1" by (simp add: utf8_size_ranges Let_def)
  ultimately show ?thesis by (simp add: utf8_size_ranges Let_def)
qed

theorem utf8_size_of_lead_witness: "utf8_size (hd (utf8_bytes 0x1F512)) = 4"
  using utf8_size_of_lead [of "0x1F512"] by (simp add: utf8_chsize_def)

end
