(* ===== verification/Password_Text.thy ===== *)
theory Password_Text
  imports Auth Unicode
begin

text \<open>
  Editing the password: \<open>append_ch\<close> and \<open>backspace\<close> of \<^verbatim>\<open>src/password.c\<close> together with
  \<open>sbuf_clear\<close>, and what they are for. \<open>pw_repr cap pw cps\<close> says that the buffer
  \<open>pw\<close> holds the characters \<open>cps\<close>: it is well formed, its text is their UTF-8 encoding
  and none of them is NUL. The locale \<open>edit_buffer\<close> is the contract a text field has with
  its buffer; its one theorem is that a run of edits on the buffer is the same run on a list
  of characters, and the interpretation shows that the three C functions meet the contract.
\<close>

section \<open>The operations\<close>

text \<open>Scanning for the terminator stays in the buffer only if there is one.\<close>

definition backspace :: "sbuf_t \<Rightarrow> (bool \<times> sbuf_t) comp" where
  "backspace pw =
     (if sb_len pw \<noteq> 0 then
        (case sb_buf pw of
           None \<Rightarrow> Fault
         | Some (addr, b) \<Rightarrow>
             (if 0 \<notin> set b then Fault
              else let len = size_t_sub (sb_len pw) (utf8_last_size b)
                   in cbind (buf_write b len 0)
                        (\<lambda>b'. Done (True, pw\<lparr>sb_buf := Some (addr, b'), sb_len := len\<rparr>))))
      else Done (False, pw))"

definition append_ch :: "sbuf_t \<Rightarrow> u32 \<Rightarrow> sbuf_t comp" where
  "append_ch pw codepoint =
     (let usize = utf8_chsize codepoint in
      if sb_len pw + usize + 1 \<ge> sb_cap pw then Done pw
      else (case sb_buf pw of
              None \<Rightarrow> Fault
            | Some (addr, b) \<Rightarrow>
                cbind (utf8_encode b (sb_len pw) codepoint)
                  (\<lambda>(b1, _). cbind (buf_write b1 (sb_len pw + usize) 0)
                    (\<lambda>b2. Done (pw\<lparr>sb_buf := Some (addr, b2), sb_len := sb_len pw + usize\<rparr>)))))"

section \<open>What the buffer represents\<close>

definition utf8_text :: "u32 list \<Rightarrow> byte list" where
  "utf8_text cps = concat (map utf8_bytes cps)"

lemma utf8_text_simps [simp]:
  "utf8_text [] = []"
  "utf8_text (cps @ [cp]) = utf8_text cps @ utf8_bytes cp"
  by (simp_all add: utf8_text_def)

definition pw_repr :: "nat \<Rightarrow> sbuf_t \<Rightarrow> u32 list \<Rightarrow> bool" where
  "pw_repr cap pw cps \<longleftrightarrow>
     sbuf_wf pw \<and> sb_cap pw = cap \<and> sbuf_text pw = utf8_text cps \<and> 0 \<notin> set cps"

text \<open>The test of \<open>append_ch\<close>, on the text.\<close>

definition pw_room :: "nat \<Rightarrow> u32 list \<Rightarrow> u32 \<Rightarrow> bool" where
  "pw_room cap cps cp \<longleftrightarrow> length (utf8_text cps) + utf8_chsize cp + 1 < cap"

lemma utf8_text_nonzero: "0 \<notin> set cps \<Longrightarrow> 0 \<notin> set (utf8_text cps)"
  by (auto simp: utf8_text_def) (metis utf8_bytes_nonzero)

lemma utf8_text_inj:
  "\<forall>c\<in>set cps. c < 0x200000 \<Longrightarrow> \<forall>c\<in>set ds. c < 0x200000 \<Longrightarrow> utf8_text cps = utf8_text ds \<Longrightarrow> cps = ds"
  unfolding utf8_text_def by (rule utf8.text_determined)

text \<open>The buffer, spelled out.\<close>

lemma pw_repr_iff:
  "pw_repr cap pw cps \<longleftrightarrow>
     (\<exists>a post. sb_buf pw = Some (a, utf8_text cps @ 0 # post) \<and> sb_len pw = length (utf8_text cps) \<and>
        sb_cap pw = cap \<and> cap = length (utf8_text cps) + 1 + length post) \<and> 0 \<notin> set cps"
    (is "?l = ?r")
proof
  assume l: ?l
  then obtain a b where ab: "sb_buf pw = Some (a, b)"
    by (auto simp: pw_repr_def sbuf_wf_def split: option.splits)
  have wf: "sbuf_wf pw" using l by (simp add: pw_repr_def)
  note t = sbuf_wf_text [OF wf ab]
  have "b = take (Suc (sb_len pw)) b @ drop (Suc (sb_len pw)) b" by simp
  then have "b = utf8_text cps @ 0 # drop (Suc (sb_len pw)) b" using t l by (simp add: pw_repr_def)
  moreover have "length b = cap" using wf ab l by (auto simp: sbuf_wf_def pw_repr_def)
  ultimately show ?r using l t ab
    by (metis (no_types, opaque_lifting) pw_repr_def add.assoc length_Cons length_append plus_1_eq_Suc)
next
  assume ?r
  then show ?l by (auto simp: pw_repr_def sbuf_wf_def sbuf_text_def)
qed

lemma append_ch_room:
  assumes "pw_repr cap pw cps" "cp \<noteq> 0" "pw_room cap cps cp"
  shows "\<exists>pw'. append_ch pw cp = Done pw' \<and> pw_repr cap pw' (cps @ [cp])"
proof -
  let ?t = "utf8_text cps" and ?k = "utf8_chsize cp"
  obtain a post where b: "sb_buf pw = Some (a, ?t @ 0 # post)" "sb_len pw = length ?t"
    "sb_cap pw = cap" "cap = length ?t + 1 + length post" and nz: "0 \<notin> set cps"
    using assms(1) by (auto simp: pw_repr_iff)
  have room: "length ?t + ?k + 1 < cap" using assms(3) by (simp add: pw_room_def)
  then have k: "?k < length post + 1" "?k \<le> length (0 # post)" using b(4) by simp_all
  then obtain x rest where x: "drop ?k (0 # post) = x # rest"
    by (metis Cons_nth_drop_Suc length_Cons Suc_eq_plus1)
  have enc: "utf8_encode (?t @ 0 # post) (length ?t) cp = Done (?t @ utf8_bytes cp @ x # rest, ?k)"
    using utf8_encode_at [of "take ?k (0 # post)" cp ?t "drop ?k (0 # post)"] k x
    by (metis append_take_drop_id length_take min.absorb2)
  have len: "length (x # rest) = length (0 # post) - ?k" unfolding x [symmetric] by simp
  let ?b2 = "?t @ utf8_bytes cp @ 0 # rest"
  have "append_ch pw cp = Done (pw\<lparr>sb_buf := Some (a, ?b2), sb_len := length ?t + ?k\<rparr>)"
    using enc room b by (simp add: append_ch_def buf_write_def list_update_append)
  moreover have "pw_repr cap (pw\<lparr>sb_buf := Some (a, ?b2), sb_len := length ?t + ?k\<rparr>) (cps @ [cp])"
    unfolding pw_repr_iff using nz assms(2) b len k by auto
  ultimately show ?thesis by blast
qed

lemma append_ch_full:
  assumes "pw_repr cap pw cps" "\<not> pw_room cap cps cp"
  shows "append_ch pw cp = Done pw"
  using assms by (auto simp: pw_repr_iff pw_room_def append_ch_def)

lemma backspace_removes_last:
  assumes "pw_repr cap pw (cps @ [cp])"
  shows "\<exists>pw'. backspace pw = Done (True, pw') \<and> pw_repr cap pw' cps"
proof -
  let ?t = "utf8_text cps" and ?k = "utf8_chsize cp"
  obtain a post where b: "sb_buf pw = Some (a, (?t @ utf8_bytes cp) @ 0 # post)"
    "sb_len pw = length ?t + ?k" "sb_cap pw = cap" "cap = length ?t + ?k + 1 + length post"
    and nz: "0 \<notin> set cps" "cp \<noteq> 0"
    using assms by (auto simp: pw_repr_iff)
  obtain u us where u: "utf8_bytes cp = u # us" using utf8_bytes_Cons by blast
  then have len: "Suc (length us) = ?k" using length_utf8_bytes [of cp] by simp
  have sz: "utf8_last_size ((?t @ utf8_bytes cp) @ 0 # post) = ?k"
    using utf8_last_size_append [OF utf8_text_nonzero [OF nz(1)] nz(2)] by simp
  have "buf_write ((?t @ utf8_bytes cp) @ 0 # post) (length ?t) 0 = Done (?t @ 0 # us @ 0 # post)"
    by (simp add: buf_write_def list_update_append u)
  then have "backspace pw = Done (True, pw\<lparr>sb_buf := Some (a, ?t @ 0 # us @ 0 # post), sb_len := length ?t\<rparr>)"
    using b sz by (simp add: backspace_def)
  moreover have "pw_repr cap (pw\<lparr>sb_buf := Some (a, ?t @ 0 # us @ 0 # post), sb_len := length ?t\<rparr>) cps"
    unfolding pw_repr_iff using b nz len by auto
  ultimately show ?thesis by blast
qed

lemma backspace_empty: "pw_repr cap pw [] \<Longrightarrow> backspace pw = Done (False, pw)"
  by (auto simp: pw_repr_iff backspace_def)

lemma sbuf_clear_repr:
  assumes "pw_repr cap pw cps"
  shows "\<exists>pw'. sbuf_clear pw = Done pw' \<and> pw_repr cap pw' [] \<and> sbuf_zeroed pw'"
proof -
  obtain pw' where "sbuf_clear pw = Done pw'" "sbuf_wf pw'" "sbuf_zeroed pw'" "sb_cap pw' = sb_cap pw"
    using sbuf_clear_wf assms by (auto simp: pw_repr_def)
  then show ?thesis using assms
    by (auto simp: pw_repr_def sbuf_text_def sbuf_zeroed_def split: option.splits)
qed

section \<open>The contract of an edit buffer\<close>

datatype 'c edit = Type 'c | Erase | Clear

fun edit_text :: "('c list \<Rightarrow> 'c \<Rightarrow> bool) \<Rightarrow> 'c list \<Rightarrow> 'c edit \<Rightarrow> 'c list" where
  "edit_text room cs (Type c) = (if room cs c then cs @ [c] else cs)"
| "edit_text room cs Erase = butlast cs"
| "edit_text room cs Clear = []"

fun run_edits ::
  "('b \<Rightarrow> 'c \<Rightarrow> 'b comp) \<Rightarrow> ('b \<Rightarrow> (bool \<times> 'b) comp) \<Rightarrow> ('b \<Rightarrow> 'b comp) \<Rightarrow> 'b \<Rightarrow> 'c edit list \<Rightarrow> 'b comp"
  where
  "run_edits app era clr b [] = Done b"
| "run_edits app era clr b (Type c # es) = cbind (app b c) (\<lambda>b'. run_edits app era clr b' es)"
| "run_edits app era clr b (Erase # es) = cbind (era b) (\<lambda>(_, b'). run_edits app era clr b' es)"
| "run_edits app era clr b (Clear # es) = cbind (clr b) (\<lambda>b'. run_edits app era clr b' es)"

locale edit_buffer =
  fixes repr :: "'b \<Rightarrow> 'c list \<Rightarrow> bool"
    and room :: "'c list \<Rightarrow> 'c \<Rightarrow> bool"
    and ok :: "'c \<Rightarrow> bool"
    and app :: "'b \<Rightarrow> 'c \<Rightarrow> 'b comp"
    and era :: "'b \<Rightarrow> (bool \<times> 'b) comp"
    and clr :: "'b \<Rightarrow> 'b comp"
  assumes app_room: "repr b cs \<Longrightarrow> ok c \<Longrightarrow> room cs c \<Longrightarrow> \<exists>b'. app b c = Done b' \<and> repr b' (cs @ [c])"
    and app_full: "repr b cs \<Longrightarrow> ok c \<Longrightarrow> \<not> room cs c \<Longrightarrow> app b c = Done b"
    and era_last: "repr b (cs @ [c]) \<Longrightarrow> \<exists>b'. era b = Done (True, b') \<and> repr b' cs"
    and era_empty: "repr b [] \<Longrightarrow> era b = Done (False, b)"
    and clr_all: "repr b cs \<Longrightarrow> \<exists>b'. clr b = Done b' \<and> repr b' []"
begin

lemma app_repr:
  "repr b cs \<Longrightarrow> ok c \<Longrightarrow> \<exists>b'. app b c = Done b' \<and> repr b' (edit_text room cs (Type c))"
  using app_room app_full by (cases "room cs c") auto

lemma era_repr:
  "repr b cs \<Longrightarrow> \<exists>b'. era b = Done (cs \<noteq> [], b') \<and> repr b' (butlast cs)"
proof (cases cs rule: rev_cases)
  case (snoc ys y)
  assume "repr b cs"
  with snoc obtain b' where "era b = Done (True, b')" "repr b' ys" using era_last by blast
  with snoc show ?thesis by simp
qed (simp add: era_empty)

lemma run_edits_repr:
  "repr b cs \<Longrightarrow> \<forall>c. Type c \<in> set es \<longrightarrow> ok c \<Longrightarrow>
     \<exists>b'. run_edits app era clr b es = Done b' \<and> repr b' (foldl (edit_text room) cs es)"
proof (induction es arbitrary: b cs)
  case (Cons e es)
  show ?case
  proof (cases e)
    case (Type c)
    with Cons.prems app_repr [of b cs c] Cons.IH show ?thesis by fastforce
  next
    case Erase
    with Cons.prems era_repr [of b cs] Cons.IH show ?thesis by fastforce
  next
    case Clear
    with Cons.prems clr_all [of b cs] Cons.IH show ?thesis by fastforce
  qed
qed simp

end

interpretation pwbuf: edit_buffer "pw_repr cap" "pw_room cap" "\<lambda>cp. cp \<noteq> 0" append_ch backspace sbuf_clear
  for cap
  by unfold_locales
    (use append_ch_room append_ch_full backspace_removes_last backspace_empty sbuf_clear_repr in blast)+

section \<open>Properties\<close>

text \<open>
  C13: any run of typing, erasing and clearing on the password buffer stays inside the buffer
  and leaves in it the UTF-8 encoding of what the same run leaves in a list of characters, where
  a character that no longer fits is dropped.
\<close>

theorem password_edits_refine:
  assumes "pw_repr cap pw cs" "\<forall>c. Type c \<in> set es \<longrightarrow> c \<noteq> 0"
  shows "\<exists>pw'. run_edits append_ch backspace sbuf_clear pw es = Done pw' \<and>
    pw_repr cap pw' (foldl (edit_text (pw_room cap)) cs es)"
  using assms by (rule pwbuf.run_edits_repr)

definition demo_buffer :: sbuf_t where
  "demo_buffer = \<lparr>sb_buf = Some (8192, replicate 8 0), sb_cap = 8, sb_len = 0\<rparr>"

lemma demo_buffer_repr: "pw_repr 8 demo_buffer []"
  by (simp add: pw_repr_def sbuf_wf_def sbuf_text_def demo_buffer_def)

theorem password_edits_refine_witness:
  "\<exists>pw'. run_edits append_ch backspace sbuf_clear demo_buffer [Type 0x61, Type 0x20AC, Erase, Type 0xE9, Type 0x1F512] = Done pw' \<and>
     pw_repr 8 pw' [0x61, 0xE9]"
  using password_edits_refine [OF demo_buffer_repr, of "[Type 0x61, Type 0x20AC, Erase, Type 0xE9, Type 0x1F512]"]
  by (simp add: pw_room_def utf8_text_def utf8_chsize_def)



end
