(* ===== verification/Dewlock_State.thy ===== *)
theory Dewlock_State
  imports Config Ctx Eventloop Password_Text
begin

text \<open>
  \<^verbatim>\<open>src/dewlock.h\<close> and \<^verbatim>\<open>src/seat.h\<close>: the state of the lock screen. A callback of
  the event loop with its data pointer is a constructor of \<open>timer_cb\<close> or \<open>fd_cb\<close>; a
  seat is its index in the list of seats the program has allocated, a surface is named by its
  \<open>s_id\<close>. Besides the fields of the C struct the record holds what the C files keep in
  statics and what the program shares with the other process: the configuration
  (\<^verbatim>\<open>src/config.c\<close>), the drawing resources and \<open>last_len\<close> (\<^verbatim>\<open>src/ctx.c\<close>,
  \<^verbatim>\<open>src/render.c\<close>), the two pipes with the schedules of the calls on them
  (\<^verbatim>\<open>src/auth.c\<close>). \<open>env\<close> gathers the answers of the libraries: \<open>ev_alloc\<close> and \<open>ev_create\<close> say
  whether the n-th allocation of a seat or surface and the n-th creation of a proxy succeed.
\<close>

section \<open>States of the indicator\<close>

datatype auth_state_t = AUTH_STATE_IDLE | AUTH_STATE_VALIDATING | AUTH_STATE_INVALID
datatype input_state_t = INPUT_STATE_PRISTINE | INPUT_STATE_DIRTY

section \<open>Callbacks\<close>

datatype timer_cb = SetAuthIdle | ClearPassword | SetTime | KeyboardRepeat nat
datatype fd_cb = DisplayIn | ReplyIn | TermIn

section \<open>Keyboard and seats\<close>

text \<open>
  The state object of xkbcommon is an abstract value. \<open>seat_cursor\<close> is the serial of the last
  request for an empty cursor.
\<close>

record xkb_t =
  xkb_caps_lock :: bool
  xkb_control :: bool
  xkb_state :: "nat option"
  xkb_keymap :: "nat option"

record seat_t =
  seat_pointer :: bool
  seat_keyboard :: bool
  seat_cursor :: "u32 option"
  repeat_period_ms :: int
  repeat_delay_ms :: int
  repeat_sym :: u32
  repeat_codepoint :: u32
  repeat_timer :: "nat option"

section \<open>What the compositor sends\<close>

text \<open>
  An event names the surface or the seat whose object it is sent to; the arguments the handlers
  ignore are left out. A call that dispatches events handles one batch of the \<open>inbox\<close>;
  \<open>None\<close> is a call that fails, and a call with no batch left has not returned. The keymap
  comes with the contents of its mapping, \<open>None\<close> if \<^verbatim>\<open>mmap\<close> fails.
\<close>

datatype keymap_format = KEYMAP_NO_KEYMAP | KEYMAP_XKB_V1 | KEYMAP_OTHER

datatype pointer_event =
    PointerEnter u32 | PointerLeave | PointerMotion | PointerButton | PointerAxis | PointerFrame
  | PointerAxisSource | PointerAxisStop | PointerAxisDiscrete

datatype wl_event =
    Global u32 string
  | GlobalRemove u32
  | OutputGeometry nat int
  | OutputMode nat
  | OutputDone nat
  | OutputScale nat int
  | OutputName nat string
  | OutputDescription nat
  | Configure nat u32 u32
  | FrameDone nat
  | BufferRelease nat nat
  | Locked
  | Finished
  | SeatCapabilities nat bool bool
  | SeatName nat
  | Pointer nat pointer_event
  | Keymap nat keymap_format "string option"
  | KeyboardEnter nat
  | KeyboardLeave nat
  | Key nat u32 bool
  | Modifiers nat u32 u32 u32 u32
  | RepeatInfo nat int int

section \<open>Surfaces\<close>

record dewlock_text =
  dt_color :: color_t
  dt_size :: rat
  dt_family :: string
  dt_bold :: bool

datatype draw_op =
    DrawText dewlock_text rat rat string
  | DrawLine color_t rat rat rat rat rat
  | DrawRect color_t rat rat rat rat
  | DrawClear color_t
  | DrawImage rat rat bg_source

text \<open>What was committed last: the background and the indicator, the size of the indicator's buffer,
  the position of its subsurface, and the two buffer scales.\<close>

record shown_t =
  sh_background :: "draw_op list"
  sh_indicator :: "draw_op list"
  sh_indicator_size :: "int \<times> int"
  sh_indicator_pos :: "int \<times> int"
  sh_indicator_scale :: int
  sh_scale :: int

record surface_t =
  s_id :: nat
  s_image :: "image_t option"
  s_output_global_name :: u32
  s_surface :: bool
  s_child :: bool
  s_subsurface :: bool
  s_lock_surface :: bool
  s_opaque_region :: bool
  s_buffers :: "ctx_t list"
  s_created :: bool
  s_dirty :: bool
  s_width :: u32
  s_height :: u32
  s_scale :: int
  s_subpixel :: int
  s_output_name :: "string option"
  s_frame :: bool
  s_last_buffer_width :: int
  s_last_buffer_height :: int
  s_shown :: shown_t

record disp_t =
  d_gfx :: gfx
  d_last_len :: nat

section \<open>The state\<close>

datatype session_lock = NoLock | LockRequested | Unlocked

record dewlock_state =
  eventloop :: "(fd_cb, timer_cb) loop_t"
  input_idle_timer :: "nat option"
  auth_idle_timer :: "nat option"
  clear_password_timer :: "nat option"
  clock_timer :: "nat option"
  compositor :: bool
  subcompositor :: bool
  wl_shm :: bool
  surfaces :: "surface_t list"
  images :: "dewlock_image list"
  password :: sbuf_t
  username :: "string option"
  time_text :: "string option"
  date_text :: "string option"
  xkb :: xkb_t
  auth_state :: auth_state_t
  input_state :: input_state_t
  failed_attempts :: int
  run_display :: bool
  locked :: bool
  lock_manager :: bool
  session_lock :: session_lock
  config :: cfg_t
  disp :: disp_t
  seats :: "seat_t list"
  next_id :: nat
  creations :: nat
  now_calls :: nat
  inbox :: "wl_event list option list"
  req_pipe :: pipe_t
  rep_pipe :: pipe_t
  writes :: "write_event list"
  reads :: "read_event list"

section \<open>The environment\<close>

record extents =
  e_width :: rat
  e_height :: rat
  e_x_advance :: rat
  e_y_bearing :: rat

record tm_t =
  tm_hour :: int
  tm_min :: int
  tm_mday :: int
  tm_year :: int
  tm_month_name :: string

record xkb_env =
  xe_get_one_sym :: "nat \<Rightarrow> u32 \<Rightarrow> u32"
  xe_get_utf32 :: "nat \<Rightarrow> u32 \<Rightarrow> u32"
  xe_layout_active :: "nat \<Rightarrow> u32 \<Rightarrow> int"
  xe_update_mask :: "nat \<Rightarrow> u32 \<Rightarrow> u32 \<Rightarrow> u32 \<Rightarrow> u32 \<Rightarrow> nat"
  xe_caps_active :: "nat \<Rightarrow> int"
  xe_ctrl_active :: "nat \<Rightarrow> int"
  xe_keymap_new :: "string \<Rightarrow> nat option"
  xe_state_new :: "nat \<Rightarrow> nat option"

record env =
  ev_loop :: loop_env
  ev_shm :: shm_env
  ev_xkb :: xkb_env
  ev_ndebug :: bool
  ev_extents :: "dewlock_text \<Rightarrow> string \<Rightarrow> extents"
  ev_now :: "nat \<Rightarrow> tm_t"
  ev_alloc :: "nat \<Rightarrow> bool"
  ev_create :: "nat \<Rightarrow> bool"

section \<open>Starting values\<close>

definition xkb_zero :: xkb_t where
  "xkb_zero = \<lparr>xkb_caps_lock = False, xkb_control = False, xkb_state = None, xkb_keymap = None\<rparr>"

definition seat_zero :: seat_t where
  "seat_zero = \<lparr>seat_pointer = False, seat_keyboard = False, seat_cursor = None, repeat_period_ms = 0,
     repeat_delay_ms = 0, repeat_sym = 0, repeat_codepoint = 0, repeat_timer = None\<rparr>"

definition shown_zero :: shown_t where
  "shown_zero = \<lparr>sh_background = [], sh_indicator = [], sh_indicator_size = (0, 0),
     sh_indicator_pos = (0, 0), sh_indicator_scale = 0, sh_scale = 0\<rparr>"

definition surface_zero :: surface_t where
  "surface_zero = \<lparr>s_id = 0, s_image = None, s_output_global_name = 0, s_surface = False, s_child = False,
     s_subsurface = False, s_lock_surface = False, s_opaque_region = False,
     s_buffers = replicate 3 ctx_zero, s_created = False, s_dirty = False, s_width = 0, s_height = 0,
     s_scale = 0, s_subpixel = 0, s_output_name = None, s_frame = False, s_last_buffer_width = 0,
     s_last_buffer_height = 0, s_shown = shown_zero\<rparr>"

definition gfx_zero :: gfx where
  "gfx_zero = \<lparr>g_calls = 0, g_fds = 0, g_maps = 0, g_buffers = 0, g_surfaces = 0, g_cairos = 0\<rparr>"

definition set_eventloop ::
  "((fd_cb, timer_cb) loop_t \<Rightarrow> (fd_cb, timer_cb) loop_t) \<Rightarrow> dewlock_state \<Rightarrow> dewlock_state" where
  "set_eventloop f s = s\<lparr>eventloop := f (eventloop s)\<rparr>"

text \<open>The state before \<^verbatim>\<open>main\<close> runs, with the event loop it will create and the schedules of its calls.\<close>

definition xkb_env_none :: xkb_env where
  "xkb_env_none = \<lparr>xe_get_one_sym = (\<lambda>_ _. 0), xe_get_utf32 = (\<lambda>_ _. 0), xe_layout_active = (\<lambda>_ _. 1),
     xe_update_mask = (\<lambda>st _ _ _ _. st), xe_caps_active = (\<lambda>_. 0), xe_ctrl_active = (\<lambda>_. 0),
     xe_keymap_new = (\<lambda>_. None), xe_state_new = (\<lambda>_. None)\<rparr>"

definition loop_zero :: "(fd_cb, timer_cb) loop_t" where
  "loop_zero = \<lparr>fds = [], fd_length = 0, fd_capacity = 0, fd_events = [], timers = [], calls = 0\<rparr>"

definition state_zero :: "wl_event list option list \<Rightarrow> write_event list \<Rightarrow> read_event list \<Rightarrow> dewlock_state" where
  "state_zero inb ws rs = \<lparr>eventloop = loop_zero, input_idle_timer = None, auth_idle_timer = None,
     clear_password_timer = None, clock_timer = None, compositor = False, subcompositor = False,
     wl_shm = False, surfaces = [], images = [], password = sbuf_zero, username = None, time_text = None,
     date_text = None, xkb = xkb_zero, auth_state = AUTH_STATE_IDLE, input_state = INPUT_STATE_PRISTINE,
     failed_attempts = 0, run_display = False, locked = False, lock_manager = False,
     session_lock = NoLock, config = cfg_zero, disp = \<lparr>d_gfx = gfx_zero, d_last_len = 0\<rparr>, seats = [],
     next_id = 0, creations = 0, now_calls = 0, inbox = inb, req_pipe = \<lparr>p_data = [], p_open = True\<rparr>,
     rep_pipe = \<lparr>p_data = [], p_open = True\<rparr>, writes = ws, reads = rs\<rparr>"

section \<open>An example environment\<close>

text \<open>Libraries that keep their promises; the properties are instantiated with it.\<close>

definition demo_env :: env where
  "demo_env = \<lparr>
     ev_loop = \<lparr>le_calloc = (\<lambda>n A. Some (Suc (Max (insert 0 A)))), le_clock = (\<lambda>n. Timespec (int n) 0)\<rparr>,
     ev_shm = \<lparr>se_open = (\<lambda>n. SHM_FD), se_truncate = (\<lambda>n. True), se_mmap = (\<lambda>n. True), se_cairo = (\<lambda>n. True)\<rparr>,
     ev_xkb = xkb_env_none, ev_ndebug = True,
     ev_extents = (\<lambda>_ _. \<lparr>e_width = 1, e_height = 1, e_x_advance = 1, e_y_bearing = 0\<rparr>),
     ev_now = (\<lambda>n. \<lparr>tm_hour = 9, tm_min = 5, tm_mday = 1, tm_year = 125, tm_month_name = ''May''\<rparr>),
     ev_alloc = (\<lambda>n. True), ev_create = (\<lambda>n. True)\<rparr>"

lemma demo_env_ok:
  "loop_env_ok (ev_loop demo_env)" "shm_env_ok (ev_shm demo_env)"
proof -
  have "Suc (Max (insert 0 A)) \<notin> A" if "finite A" for A
  proof
    assume "Suc (Max (insert 0 A)) \<in> A"
    then have "Suc (Max (insert 0 A)) \<le> Max (insert 0 A)" using that by (intro Max_ge) simp_all
    then show False by simp
  qed
  moreover show "shm_env_ok (ev_shm demo_env)" by (simp add: shm_env_ok_def demo_env_def)
  ultimately show "loop_env_ok (ev_loop demo_env)" by (auto simp: loop_env_ok_def demo_env_def timespec_ok_def nsec_per_sec_def)
qed

end
