(* ===== verification/Render.thy ===== *)
theory Render
  imports Dewlock_State
begin

text \<open>
  \<^verbatim>\<open>src/render.c\<close> and \<open>damage_state\<close> of \<^verbatim>\<open>main.c\<close>. Drawing is the list of
  operations sent to cairo, with their coordinates; coordinates are \<^verbatim>\<open>double\<close> in the
  program and rationals here, so rounding is not modelled, and the extents of a text are the
  answer of cairo. A failed assertion, an operation on a context that cannot be drawn on, a
  request on a null proxy and a signed overflow are \<open>Fault\<close>.
\<close>

section \<open>Text\<close>

text \<open>The font size, and its multiples by an integer, which are 32-bit products in the program.\<close>

definition font_px :: "cfg_t \<Rightarrow> u32 \<Rightarrow> rat" where
  "font_px cfg k = rat_of_nat (unat (font_size cfg * k))"

definition draw_text ::
  "env \<Rightarrow> rat \<Rightarrow> rat \<Rightarrow> dewlock_text \<Rightarrow> string \<Rightarrow> draw_op \<times> extents" where
  "draw_text E w y opts txt =
     (let ext = ev_extents E opts txt in (DrawText opts (w / 2 - e_width ext / 2) y txt, ext))"

definition draw_idle :: "env \<Rightarrow> dewlock_state \<Rightarrow> rat \<Rightarrow> rat \<Rightarrow> draw_op list comp" where
  "draw_idle E s h w =
     (case (time_text s, date_text s) of
        (Some time, Some date) \<Rightarrow>
          (let datey = h / 6;
               helpy = h * 5 / 6;
               fs = font_px (config s) 1;
               opts = \<lparr>dt_color = c_text (config s), dt_size = 0, dt_family = font_family (config s), dt_bold = False\<rparr>;
               (op1, ext1) = draw_text E w datey (opts\<lparr>dt_size := fs * 13 / 2, dt_bold := True\<rparr>) time;
               (op2, ext2) = draw_text E w (datey + e_height ext1) (opts\<lparr>dt_size := font_px (config s) 2\<rparr>) date;
               (op3, ext3) = draw_text E w helpy (opts\<lparr>dt_size := fs\<rparr>) ''Press any key to unlock''
           in Done [op1, op2, op3])
      | _ \<Rightarrow> Fault)"

definition min3u :: "nat \<Rightarrow> nat \<Rightarrow> nat \<Rightarrow> nat" where
  "min3u a b c = (if a < b then (if a < c then a else c) else (if b < c then b else c))"

text \<open>The result is the string in the character array and the new \<open>last_len\<close>.\<close>

definition set_password ::
  "env \<Rightarrow> dewlock_state \<Rightarrow> dewlock_text \<Rightarrow> rat \<Rightarrow> nat \<Rightarrow> nat \<Rightarrow> (string \<times> nat) comp" where
  "set_password E s opts maxw nchars last_len =
     (if nchars = 0 then Fault
      else let maxlen = nat (trunc (maxw / e_x_advance (ev_extents E opts ''*'')));
               len = (if auth_state s = AUTH_STATE_VALIDATING then last_len
                      else min3u (sb_len (password s)) maxlen (nchars - 1))
           in if len < nchars then Done (replicate len (CHR ''*''), len) else Fault)"

definition form_message :: "auth_state_t \<Rightarrow> string" where
  "form_message a =
     (if a = AUTH_STATE_IDLE then ''Press Enter to submit''
      else if a = AUTH_STATE_VALIDATING then ''Verifying...''
      else ''Invalid credentials. Try again'')"

definition draw_form ::
  "env \<Rightarrow> dewlock_state \<Rightarrow> rat \<Rightarrow> rat \<Rightarrow> nat \<Rightarrow> (draw_op list \<times> nat) comp" where
  "draw_form E s h w last_len =
     (let fs = font_px (config s) 1;
          inputw = font_px (config s) 20; inputpadx = fs; inputh = font_px (config s) 3; spacing = fs * 3 / 2; border = fs / 4;
          opts = \<lparr>dt_color = c_text (config s), dt_size = fs * 3 / 2, dt_family = font_family (config s), dt_bold = False\<rparr>
      in cbind (set_password E s opts (inputw - inputpadx * 2) 128 last_len)
        (\<lambda>(pwd, len). case username s of
            None \<Rightarrow> Fault
          | Some user \<Rightarrow>
            (let msg = form_message (auth_state s);
                 username_opts = opts\<lparr>dt_size := fs * 9 / 4, dt_bold := True\<rparr>;
                 message_opts = opts\<lparr>dt_size := fs, dt_bold := False\<rparr>;
                 ue = ev_extents E username_opts user;
                 me = ev_extents E message_opts msg;
                 form_height = - e_y_bearing ue + e_height ue + spacing + inputh + spacing * 3 +
                               e_y_bearing me + e_height me;
                 formy = h / 2 - form_height / 2 - e_y_bearing ue;
                 (op1, ext1) = draw_text E w formy username_opts user;
                 inputx = w / 2 - inputw / 2;
                 inputy = formy + e_height ext1 + spacing;
                 color = (if auth_state s = AUTH_STATE_INVALID then c_error (config s) else c_text (config s));
                 op2 = DrawLine color border inputx (inputy + inputh) (inputx + inputw) (inputy + inputh);
                 op3 = DrawRect (c_overlay (config s)) inputx inputy inputw inputh;
                 pwd_opts = opts\<lparr>dt_size := fs * 3 / 2, dt_bold := False, dt_color := color\<rparr>;
                 (op4, ext4) = draw_text E w (inputy + spacing + fs / 2) pwd_opts pwd;
                 caps_opts = pwd_opts\<lparr>dt_size := fs * 3 / 4, dt_bold := True, dt_color := c_warning (config s)\<rparr>;
                 caps = (if auth_state s = AUTH_STATE_IDLE \<and> xkb_caps_lock (xkb s)
                         then [fst (draw_text E w (inputy + inputh + spacing) caps_opts ''CAPS LOCK IS ON'')]
                         else []);
                 (op5, ext5) = draw_text E w (inputy + inputh + spacing * 3) (message_opts\<lparr>dt_color := color\<rparr>) msg
             in Done ([op1, op2, op3, op4] @ caps @ [op5], len))))"

section \<open>Frames\<close>

definition int_ok :: "int \<Rightarrow> bool" where
  "int_ok x \<longleftrightarrow> - (2 ^ 31) \<le> x \<and> x < 2 ^ 31"

text \<open>The size rounded up for the scale; a division by zero and an overflow are \<open>None\<close>.\<close>

definition frame_extent :: "u32 \<Rightarrow> int \<Rightarrow> int option" where
  "frame_extent d scale =
     (if scale = 0 then None
      else let r = sint d + (scale - sint d smod scale) in if int_ok r then Some r else None)"

definition render_frame ::
  "env \<Rightarrow> dewlock_state \<Rightarrow> surface_t \<Rightarrow> disp_t \<Rightarrow> (bool \<times> surface_t \<times> disp_t) comp" where
  "render_frame E s surf d =
     (case (frame_extent (s_width surf) (s_scale surf), frame_extent (s_height surf) (s_scale surf)) of
        (Some bw, Some bh) \<Rightarrow>
          cbind (ctx_get_indicator (ev_shm E) (d_gfx d) (word_of_int bw) (word_of_int bh) (s_buffers surf))
            (\<lambda>(res, r, pool, g).
              let surf1 = surf\<lparr>s_buffers := pool\<rparr>; d1 = d\<lparr>d_gfx := g\<rparr> in
              case r of
                None \<Rightarrow> Done (False, surf1, d1)
              | Some i \<Rightarrow>
                if \<not> ctx_drawable (pool ! i) then Fault
                else cbind
                  (if input_state s = INPUT_STATE_PRISTINE \<and> auth_state s = AUTH_STATE_IDLE
                   then cmap (\<lambda>ops. (ops, d_last_len d)) (draw_idle E s (of_int bh) (of_int bw))
                   else draw_form E s (of_int bh) (of_int bw) (d_last_len d))
                  (\<lambda>(ops, len).
                    if \<not> s_child surf \<or> \<not> s_subsurface surf then Fault
                    else Done (True,
                      surf1\<lparr>s_shown := (s_shown surf)\<lparr>sh_indicator := DrawClear (c_overlay (config s)) # ops,
                                                      sh_indicator_size := (bw, bh),
                                                      sh_indicator_pos := (sint (s_width surf) sdiv 2 - bw sdiv 2, 0),
                                                      sh_indicator_scale := s_scale surf\<rparr>\<rparr>,
                      d1\<lparr>d_last_len := len\<rparr>)))
      | _ \<Rightarrow> Fault)"

text \<open>The background part of \<^verbatim>\<open>rnd_handle_render\<close>; \<open>None\<close> is its early return.\<close>

definition render_background ::
  "env \<Rightarrow> dewlock_state \<Rightarrow> surface_t \<Rightarrow> disp_t \<Rightarrow> int \<Rightarrow> int \<Rightarrow> (bool \<times> surface_t \<times> disp_t) comp" where
  "render_background E s surf d bw bh =
     cbind (ctx_get_background (ev_shm E) (d_gfx d) (word_of_int bw) (word_of_int bh) (s_buffers surf))
       (\<lambda>(res, r, pool, g).
         let surf1 = surf\<lparr>s_buffers := pool\<rparr>; d1 = d\<lparr>d_gfx := g\<rparr> in
         if res \<noteq> OK then Done (False, surf1, d1)
         else if \<not> ctx_drawable (pool ! 0) then Fault
         else cbind
           (case s_image surf of
              Some img \<Rightarrow>
                (if bg_mode (config s) \<noteq> BACKGROUND_MODE_SOLID_COLOR
                 then cmap (\<lambda>(sx, sy, src). [DrawImage sx sy src])
                        (bg_render_image (ev_ndebug E) img (bg_mode (config s)) bw bh)
                 else Done [])
            | None \<Rightarrow> Done [])
           (\<lambda>ops. if \<not> s_surface surf then Fault
                  else Done (True,
                    surf1\<lparr>s_shown := (s_shown surf)\<lparr>sh_background := DrawClear (c_background (config s)) # ops\<rparr>,
                          s_last_buffer_width := bw, s_last_buffer_height := bh\<rparr>, d1)))"

definition rnd_handle_render ::
  "env \<Rightarrow> dewlock_state \<Rightarrow> surface_t \<Rightarrow> disp_t \<Rightarrow> (surface_t \<times> disp_t) comp" where
  "rnd_handle_render E s surf d =
     (let bw = sint (s_width surf) * s_scale surf; bh = sint (s_height surf) * s_scale surf in
      if \<not> int_ok bw \<or> \<not> int_ok bh then Fault
      else if bw = 0 \<or> bh = 0 then Done (surf, d)
      else if \<not> s_dirty surf \<or> s_frame surf then Done (surf, d)
      else cbind (if bw \<noteq> s_last_buffer_width surf \<or> bh \<noteq> s_last_buffer_height surf
                  then render_background E s surf d bw bh else Done (True, surf, d))
        (\<lambda>(go, surf1, d1).
          if \<not> go then Done (surf1, d1)
          else if \<not> s_surface surf1 then Fault
          else cbind (render_frame E s surf1 d1)
            (\<lambda>(_, surf2, d2).
              Done (surf2\<lparr>s_dirty := False, s_frame := True,
                          s_shown := (s_shown surf2)\<lparr>sh_scale := s_scale surf\<rparr>\<rparr>, d2))))"

definition surface_frame_handle_done ::
  "env \<Rightarrow> dewlock_state \<Rightarrow> surface_t \<Rightarrow> disp_t \<Rightarrow> (surface_t \<times> disp_t) comp" where
  "surface_frame_handle_done E s surf d = rnd_handle_render E s (surf\<lparr>s_frame := False\<rparr>) d"

section \<open>Redrawing every surface\<close>

fun damage_surfaces ::
  "env \<Rightarrow> dewlock_state \<Rightarrow> surface_t list \<Rightarrow> disp_t \<Rightarrow> (surface_t list \<times> disp_t) comp" where
  "damage_surfaces E s [] d = Done ([], d)"
| "damage_surfaces E s (surf # rest) d =
     cbind (rnd_handle_render E s (surf\<lparr>s_dirty := True\<rparr>) d)
       (\<lambda>(surf1, d1). cmap (\<lambda>(rest1, d2). (surf1 # rest1, d2)) (damage_surfaces E s rest d1))"

definition damage_state :: "env \<Rightarrow> dewlock_state \<Rightarrow> dewlock_state run" where
  "damage_state E s =
     run_of_comp (cmap (\<lambda>(surfs, d). s\<lparr>surfaces := surfs, disp := d\<rparr>) (damage_surfaces E s (surfaces s) (disp s)))"

section \<open>What a frame depends on\<close>

definition view :: "dewlock_state \<Rightarrow>
    cfg_t \<times> string option \<times> string option \<times> string option \<times> bool \<times> auth_state_t \<times> input_state_t \<times> nat" where
  "view s = (config s, time_text s, date_text s, username s, xkb_caps_lock (xkb s),
     auth_state s, input_state s, sb_len (password s))"

lemma view_eqD:
  assumes "view s = view t"
  shows "config s = config t" "time_text s = time_text t" "date_text s = date_text t"
    "username s = username t" "xkb_caps_lock (xkb s) = xkb_caps_lock (xkb t)"
    "auth_state s = auth_state t" "input_state s = input_state t" "sb_len (password s) = sb_len (password t)"
  using assms by (simp_all add: view_def)

lemma rnd_handle_render_view:
  assumes "view s = view t"
  shows "rnd_handle_render E s surf d = rnd_handle_render E t surf d"
proof -
  note v = view_eqD [OF assms]
  have "draw_idle E s h w = draw_idle E t h w" for h w unfolding draw_idle_def v ..
  moreover have "draw_form E s h w l = draw_form E t h w l" for h w l
    unfolding draw_form_def set_password_def v ..
  ultimately have "render_frame E s surf d = render_frame E t surf d" for surf d
    unfolding render_frame_def v by presburger
  moreover have "render_background E s surf d bw bh = render_background E t surf d bw bh" for surf d bw bh
    unfolding render_background_def v ..
  ultimately show ?thesis unfolding rnd_handle_render_def by presburger
qed

lemma damage_surfaces_view:
  "view s = view t \<Longrightarrow> damage_surfaces E s surfs d = damage_surfaces E t surfs d"
  by (induction surfs arbitrary: d) (simp_all add: rnd_handle_render_view [of s t])

lemma damage_state_frame:
  "damage_state E s = Running s' \<Longrightarrow> s' = s\<lparr>surfaces := surfaces s', disp := disp s'\<rparr>"
  by (auto simp: damage_state_def comp_simps)

section \<open>Sizes\<close>

lemma frame_extent_result:
  assumes "frame_extent d scale = Some r" "0 < scale" "0 \<le> sint d"
  shows "r mod scale = 0 \<and> sint d < r \<and> r \<le> sint d + scale"
proof -
  have r: "r = sint d + (scale - sint d mod scale)"
    using assms by (auto simp: frame_extent_def Let_def smod_mod_positive split: if_splits)
  have "r = (sint d div scale + 1) * scale" unfolding r by (simp add: algebra_simps minus_mod_eq_mult_div [symmetric])
  then have "r mod scale = 0" by simp
  moreover have "0 \<le> sint d mod scale" "sint d mod scale < scale" using assms(2) by simp_all
  ultimately show ?thesis using r by linarith
qed

text \<open>Sizes of a surface for which no buffer size overflows.\<close>

definition dims_fit :: "u32 \<Rightarrow> u32 \<Rightarrow> int \<Rightarrow> bool" where
  "dims_fit w h scale \<longleftrightarrow> int_ok (sint w * scale) \<and> int_ok (sint h * scale) \<and>
     (sint w * scale \<noteq> 0 \<and> sint h * scale \<noteq> 0 \<longrightarrow>
        0 < sint w * scale \<and> 0 < sint h * scale \<and>
        dims_ok (word_of_int (sint w * scale)) (word_of_int (sint h * scale)) \<and>
        (case (frame_extent w scale, frame_extent h scale) of
           (Some bw, Some bh) \<Rightarrow> dims_ok (word_of_int bw) (word_of_int bh) | _ \<Rightarrow> False))"

lemma dims_ok_of_int:
  assumes "0 < a" "a \<le> 30000" "0 < b" "b \<le> 30000"
  shows "dims_ok (word_of_int a) (word_of_int b)"
proof -
  have n: "unat (word_of_int x :: u32) = nat x" if "0 < x" "x \<le> 30000" for x
    using that by (simp add: unat_eq_nat_uint unsigned_of_int take_bit_int_eq_self)
  have "nat a * nat b \<le> 30000 * 30000" using assms by (intro mult_le_mono) simp_all
  moreover have "nat a \<le> 30000" "nat b \<le> 30000" using assms by simp_all
  ultimately show ?thesis using assms n by (simp add: dims_ok_def)
qed

lemma int_ok_small: "0 \<le> x \<Longrightarrow> x \<le> 15000 \<Longrightarrow> int_ok x"
  by (simp add: int_ok_def)

lemma dims_fit_small:
  assumes "0 < scale" "sint w * scale \<le> 15000" "sint h * scale \<le> 15000" "0 \<le> sint w" "0 \<le> sint h"
  shows "dims_fit w h scale"
proof -
  have ext: "\<exists>r. frame_extent d scale = Some r \<and> 0 < r \<and> r \<le> 30000"
    if d: "sint d * scale \<le> 15000" "0 < sint d" for d
  proof -
    have "scale \<le> sint d * scale" "sint d \<le> sint d * scale" using assms(1) d(2) by simp_all
    then have b: "sint d \<le> 15000" "scale \<le> 15000" using d(1) by linarith+
    have "0 \<le> sint d mod scale" "sint d mod scale < scale" using assms(1) by simp_all
    then have r: "0 < sint d + (scale - sint d mod scale)" "sint d + (scale - sint d mod scale) \<le> 30000"
      using b d assms(1) by linarith+
    then have "int_ok (sint d + (scale - sint d mod scale))" by (simp add: int_ok_def)
    then show ?thesis using r d assms(1) by (simp add: frame_extent_def Let_def smod_mod_positive)
  qed
  have "0 \<le> sint w * scale" "0 \<le> sint h * scale" using assms by simp_all
  then have i: "int_ok (sint w * scale)" "int_ok (sint h * scale)"
    using assms(2,3) by (auto intro: int_ok_small)
  show ?thesis
  proof (cases "sint w = 0 \<or> sint h = 0")
    case True
    then show ?thesis using i by (auto simp: dims_fit_def)
  next
    case False
    then have p: "0 < sint w" "0 < sint h" using assms by auto
    then have "0 < sint w * scale" "0 < sint h * scale" using assms(1) by simp_all
    then show ?thesis
      using ext [OF assms(2) p(1)] ext [OF assms(3) p(2)] assms
        dims_ok_of_int [of "sint w * scale" "sint h * scale"] dims_ok_of_int
      using i by (auto simp: dims_fit_def)
  qed
qed

section \<open>Rendering is safe\<close>

definition surf_ok :: "surface_t \<Rightarrow> bool" where
  "surf_ok surf \<longleftrightarrow> pool_ok (s_buffers surf) \<and> dims_fit (s_width surf) (s_height surf) (s_scale surf) \<and>
     (s_width surf \<noteq> 0 \<and> s_height surf \<noteq> 0 \<longrightarrow> s_surface surf \<and> s_child surf \<and> s_subsurface surf)"

text \<open>What the state must provide: the texts of the screens and a mode the renderer handles.\<close>

definition view_ok :: "env \<Rightarrow> dewlock_state \<Rightarrow> bool" where
  "view_ok E s \<longleftrightarrow> time_text s \<noteq> None \<and> date_text s \<noteq> None \<and> username s \<noteq> None \<and>
     (ev_ndebug E \<or> bg_mode (config s) \<noteq> BACKGROUND_MODE_INVALID)"

definition disp_ok :: "disp_t \<Rightarrow> bool" where
  "disp_ok d \<longleftrightarrow> d_last_len d < 128"

lemma min3u_min: "min3u a b c = min a (min b c)"
  by (auto simp: min3u_def min_def)

lemma set_password_result:
  assumes "last_len < nchars"
  shows "\<exists>len. set_password E s opts maxw nchars last_len = Done (replicate len (CHR ''*''), len) \<and> len < nchars \<and>
    (if auth_state s = AUTH_STATE_VALIDATING then len = last_len else len \<le> sb_len (password s))"
  using assms by (auto simp: set_password_def Let_def min3u_min)

lemma draw_form_result:
  assumes "view_ok E s" "l < 128"
  shows "\<exists>ops len. draw_form E s h w l = Done (ops, len) \<and> len < 128"
proof -
  obtain user where u: "username s = Some user" using assms(1) by (auto simp: view_ok_def)
  have "\<forall>opts maxw. \<exists>len. set_password E s opts maxw 128 l = Done (replicate len (CHR ''*''), len) \<and> len < 128"
    using set_password_result [OF assms(2)] by blast
  then obtain f where "\<And>opts maxw. set_password E s opts maxw 128 l =
      Done (replicate (f opts maxw) (CHR ''*''), f opts maxw)" "\<And>opts maxw. f opts maxw < 128"
    by metis
  then show ?thesis by (simp add: draw_form_def Let_def u draw_text_def)
qed

lemma draw_idle_result: "view_ok E s \<Longrightarrow> \<exists>ops. draw_idle E s h w = Done ops"
  by (auto simp: view_ok_def draw_idle_def draw_text_def Let_def)

definition geometry :: "surface_t \<Rightarrow> u32 \<times> u32 \<times> int \<times> (bool \<times> bool \<times> bool \<times> bool \<times> bool) \<times> nat" where
  "geometry surf = (s_width surf, s_height surf, s_scale surf,
     (s_surface surf, s_child surf, s_subsurface surf, s_lock_surface surf, s_created surf), s_id surf)"

lemma surf_ok_geometry:
  "surf_ok surf \<Longrightarrow> geometry surf' = geometry surf \<Longrightarrow> pool_ok (s_buffers surf') \<Longrightarrow> surf_ok surf'"
  by (auto simp: surf_ok_def geometry_def)

lemma surf_ok_flags [simp]:
  "surf_ok (surf\<lparr>s_dirty := b\<rparr>) = surf_ok surf" "surf_ok (surf\<lparr>s_frame := b\<rparr>) = surf_ok surf"
  "surf_ok (surf\<lparr>s_shown := x\<rparr>) = surf_ok surf"
  by (simp_all add: surf_ok_def)

lemma sint_zero_iff: "sint (w :: u32) = 0 \<longleftrightarrow> w = 0"
  by (metis signed_0 signed_word_eqI)

lemma bg_render_image_total:
  "0 < bw \<Longrightarrow> 0 < bh \<Longrightarrow> nd \<or> m \<noteq> BACKGROUND_MODE_INVALID \<Longrightarrow> m \<noteq> BACKGROUND_MODE_SOLID_COLOR \<Longrightarrow>
     \<exists>sx sy src. bg_render_image nd img m bw bh = Done (sx, sy, src)"
  by (cases m) (auto simp: bg_render_image_def Let_def)

definition render_ok :: "env \<Rightarrow> dewlock_state \<Rightarrow> bool" where
  "render_ok E s \<longleftrightarrow> shm_env_ok (ev_shm E) \<and> view_ok E s"

lemma render_okD: "render_ok E s \<Longrightarrow> shm_env_ok (ev_shm E)" "render_ok E s \<Longrightarrow> view_ok E s"
  by (simp_all add: render_ok_def)

lemma render_frame_ok:
  assumes R: "render_ok E s" and A: "surf_ok surf" "disp_ok d" "sint (s_width surf) * s_scale surf \<noteq> 0" "sint (s_height surf) * s_scale surf \<noteq> 0"
  shows "\<exists>ok surf' d'. render_frame E s surf d = Done (ok, surf', d') \<and> surf_ok surf' \<and>
    geometry surf' = geometry surf \<and> disp_ok d'"
proof -
  obtain bw bh where f: "frame_extent (s_width surf) (s_scale surf) = Some bw"
    "frame_extent (s_height surf) (s_scale surf) = Some bh" "dims_ok (word_of_int bw) (word_of_int bh)"
    using A(1,3,4) by (auto simp: surf_ok_def dims_fit_def split: option.splits)
  have pool: "pool_ok (s_buffers surf)" using A(1) by (simp add: surf_ok_def)
  have up: "s_child surf" "s_subsurface surf"
    using A(1,3,4) by (auto simp: surf_ok_def)
  obtain res r pool' g' where c: "ctx_get_indicator (ev_shm E) (d_gfx d) (word_of_int bw) (word_of_int bh)
      (s_buffers surf) = Done (res, r, pool', g')" "pool_ok pool'"
    "\<forall>i. r = Some i \<longrightarrow> i < 3 \<and> ctx_drawable (pool' ! i)"
    using ctx_get_indicator_ok [OF pool f(3) render_okD(1) [OF R]] by blast
  show ?thesis
  proof (cases r)
    case None
    then have "render_frame E s surf d = Done (False, surf\<lparr>s_buffers := pool'\<rparr>, d\<lparr>d_gfx := g'\<rparr>)"
      using f c by (simp add: render_frame_def)
    then show ?thesis using A(2) c(2) surf_ok_geometry [OF A(1), of "surf\<lparr>s_buffers := pool'\<rparr>"]
      by (auto simp: disp_ok_def geometry_def intro!: exI [of _ False])
  next
    case (Some i)
    obtain ops len where draw: "(if input_state s = INPUT_STATE_PRISTINE \<and> auth_state s = AUTH_STATE_IDLE
                   then cmap (\<lambda>ops. (ops, d_last_len d)) (draw_idle E s (of_int bh) (of_int bw))
                   else draw_form E s (of_int bh) (of_int bw) (d_last_len d)) = Done (ops, len)" "len < 128"
    proof (cases "input_state s = INPUT_STATE_PRISTINE \<and> auth_state s = AUTH_STATE_IDLE")
      case True
      obtain ops where "draw_idle E s (of_int bh) (of_int bw) = Done ops"
        using draw_idle_result [OF render_okD(2) [OF R]] by blast
      then show thesis using that True A(2) by (simp add: disp_ok_def)
    next
      case False
      have "d_last_len d < 128" using A(2) by (simp add: disp_ok_def)
      then obtain ops len where "draw_form E s (of_int bh) (of_int bw) (d_last_len d) = Done (ops, len)" "len < 128"
        using draw_form_result [OF render_okD(2) [OF R]] by blast
      then show thesis using that False by simp
    qed
    let ?surf = "surf\<lparr>s_buffers := pool',
        s_shown := (s_shown surf)\<lparr>sh_indicator := DrawClear (c_overlay (config s)) # ops, sh_indicator_size := (bw, bh),
                                                      sh_indicator_pos := (sint (s_width surf) sdiv 2 - bw sdiv 2, 0),
                                                      sh_indicator_scale := s_scale surf\<rparr>\<rparr>"
    have "render_frame E s surf d = Done (True, ?surf, d\<lparr>d_gfx := g', d_last_len := len\<rparr>)"
      using f c draw up Some unfolding render_frame_def by (simp add: Let_def)
    then show ?thesis using draw(2) c(2) surf_ok_geometry [OF A(1), of ?surf]
      by (auto simp: disp_ok_def geometry_def intro!: exI [of _ True])
  qed
qed

lemma render_background_ok:
  assumes R: "render_ok E s" and A: "surf_ok surf" "disp_ok d" "bw = sint (s_width surf) * s_scale surf" "bw \<noteq> 0"
    "bh = sint (s_height surf) * s_scale surf" "bh \<noteq> 0"
  shows "\<exists>ok surf' d'. render_background E s surf d bw bh = Done (ok, surf', d') \<and> surf_ok surf' \<and>
    geometry surf' = geometry surf \<and> disp_ok d'"
proof -
  have dims: "dims_ok (word_of_int bw) (word_of_int bh)" "int_ok bw" "int_ok bh"
    using A by (auto simp: surf_ok_def dims_fit_def)
  have pool: "pool_ok (s_buffers surf)" and up: "s_surface surf" and pos: "0 < bw" "0 < bh"
    using A by (auto simp: surf_ok_def dims_fit_def)
  obtain res r pool' g' where c: "ctx_get_background (ev_shm E) (d_gfx d) (word_of_int bw) (word_of_int bh)
      (s_buffers surf) = Done (res, r, pool', g')" "pool_ok pool'" "res = OK \<longrightarrow> ctx_drawable (pool' ! 0)"
    using ctx_get_background_ok [OF pool dims(1) render_okD(1) [OF R]] by blast
  show ?thesis
  proof (cases "res = OK")
    case False
    then have "render_background E s surf d bw bh = Done (False, surf\<lparr>s_buffers := pool'\<rparr>, d\<lparr>d_gfx := g'\<rparr>)"
      using c by (simp add: render_background_def)
    then show ?thesis using A(2) c(2) surf_ok_geometry [OF A(1), of "surf\<lparr>s_buffers := pool'\<rparr>"]
      by (auto simp: disp_ok_def geometry_def intro!: exI [of _ False])
  next
    case True
    obtain ops where ops: "(case s_image surf of
              Some img \<Rightarrow>
                (if bg_mode (config s) \<noteq> BACKGROUND_MODE_SOLID_COLOR
                 then cmap (\<lambda>(sx, sy, src). [DrawImage sx sy src])
                        (bg_render_image (ev_ndebug E) img (bg_mode (config s)) bw bh)
                 else Done [])
            | None \<Rightarrow> Done []) = Done ops"
    proof (cases "s_image surf = None \<or> bg_mode (config s) = BACKGROUND_MODE_SOLID_COLOR")
      case True
      then show thesis using that by (cases "s_image surf") auto
    next
      case False
      then obtain img where img: "s_image surf = Some img" by auto
      have "ev_ndebug E \<or> bg_mode (config s) \<noteq> BACKGROUND_MODE_INVALID"
        using render_okD(2) [OF R] by (simp add: view_ok_def)
      then obtain sx sy src where "bg_render_image (ev_ndebug E) img (bg_mode (config s)) bw bh = Done (sx, sy, src)"
        using bg_render_image_total [OF pos] False by blast
      then show thesis using that False img by simp
    qed
    let ?surf = "surf\<lparr>s_buffers := pool',
        s_shown := (s_shown surf)\<lparr>sh_background := DrawClear (c_background (config s)) # ops\<rparr>,
        s_last_buffer_width := bw, s_last_buffer_height := bh\<rparr>"
    have "render_background E s surf d bw bh = Done (True, ?surf, d\<lparr>d_gfx := g'\<rparr>)"
      using c ops up True unfolding render_background_def by (simp add: Let_def)
    then show ?thesis using A(2) c(2) surf_ok_geometry [OF A(1), of ?surf]
      by (auto simp: disp_ok_def geometry_def intro!: exI [of _ True])
  qed
qed

lemma rnd_handle_render_ok:
  assumes R: "render_ok E s" and A: "surf_ok surf" "disp_ok d"
  shows "\<exists>surf' d'. rnd_handle_render E s surf d = Done (surf', d') \<and> surf_ok surf' \<and>
    geometry surf' = geometry surf \<and> disp_ok d'"
proof -
  let ?bw = "sint (s_width surf) * s_scale surf" and ?bh = "sint (s_height surf) * s_scale surf"
  have i: "int_ok ?bw" "int_ok ?bh" using A(1) by (simp_all add: surf_ok_def dims_fit_def)
  show ?thesis
  proof (cases "?bw = 0 \<or> ?bh = 0 \<or> \<not> s_dirty surf \<or> s_frame surf")
    case True
    then show ?thesis using A i by (auto simp: rnd_handle_render_def Let_def)
  next
    case False
    then have nz: "?bw \<noteq> 0" "?bh \<noteq> 0" by auto
    obtain go surf1 d1 where 1: "(if ?bw \<noteq> s_last_buffer_width surf \<or> ?bh \<noteq> s_last_buffer_height surf
                  then render_background E s surf d ?bw ?bh else Done (True, surf, d)) = Done (go, surf1, d1)"
      "surf_ok surf1" "geometry surf1 = geometry surf" "disp_ok d1"
    proof (cases "?bw \<noteq> s_last_buffer_width surf \<or> ?bh \<noteq> s_last_buffer_height surf")
      case True
      obtain go surf1 d1 where "render_background E s surf d ?bw ?bh = Done (go, surf1, d1)"
        "surf_ok surf1" "geometry surf1 = geometry surf" "disp_ok d1"
        using render_background_ok [OF R A refl nz(1) refl nz(2)] by blast
      then show thesis using that True by presburger
    next
      case False
      then show thesis using that A by simp
    qed
    then have nz1: "sint (s_width surf1) * s_scale surf1 \<noteq> 0" "sint (s_height surf1) * s_scale surf1 \<noteq> 0"
      using nz by (simp_all add: geometry_def)
    have up: "s_surface surf1" using 1(2) nz1 by (auto simp: surf_ok_def)
    obtain ok surf2 d2 where 2: "render_frame E s surf1 d1 = Done (ok, surf2, d2)" "surf_ok surf2"
      "geometry surf2 = geometry surf1" "disp_ok d2"
      using render_frame_ok [OF R 1(2,4) nz1] by blast
    show ?thesis using False i 1 2 up
      by (cases go) (simp_all add: rnd_handle_render_def Let_def geometry_def)
  qed
qed

lemma damage_surfaces_ok:
  assumes R: "render_ok E s" and A: "\<forall>x\<in>set surfs. surf_ok x" "disp_ok d"
  shows "\<exists>surfs' d'. damage_surfaces E s surfs d = Done (surfs', d') \<and> (\<forall>x\<in>set surfs'. surf_ok x) \<and>
    map geometry surfs' = map geometry surfs \<and> disp_ok d'"
  using A
proof (induction surfs arbitrary: d)
  case (Cons surf surfs)
  obtain surf1 d1 where 1: "rnd_handle_render E s (surf\<lparr>s_dirty := True\<rparr>) d = Done (surf1, d1)"
    "surf_ok surf1" "geometry surf1 = geometry surf" "disp_ok d1"
    using rnd_handle_render_ok [OF R, of "surf\<lparr>s_dirty := True\<rparr>" d] Cons.prems by (auto simp: geometry_def)
  obtain surfs' d2 where 2: "damage_surfaces E s surfs d1 = Done (surfs', d2)" "\<forall>x\<in>set surfs'. surf_ok x"
    "map geometry surfs' = map geometry surfs" "disp_ok d2"
    using Cons.IH [OF _ 1(4)] Cons.prems by auto
  show ?case using 1 2 by simp
qed simp

text \<open>Redrawing changes the surfaces and the drawing resources, and nothing else.\<close>

definition display_ok :: "env \<Rightarrow> dewlock_state \<Rightarrow> bool" where
  "display_ok E s \<longleftrightarrow> shm_env_ok (ev_shm E) \<and> view_ok E s \<and> disp_ok (disp s) \<and> (\<forall>x\<in>set (surfaces s). surf_ok x)"

lemma damage_state_ok:
  assumes "display_ok E s"
  shows "\<exists>surfs d. damage_state E s = Running (s\<lparr>surfaces := surfs, disp := d\<rparr>) \<and>
    display_ok E (s\<lparr>surfaces := surfs, disp := d\<rparr>) \<and> map geometry surfs = map geometry (surfaces s)"
proof -
  obtain surfs d where "damage_surfaces E s (surfaces s) (disp s) = Done (surfs, d)"
    "\<forall>x\<in>set surfs. surf_ok x" "map geometry surfs = map geometry (surfaces s)" "disp_ok d"
    using damage_surfaces_ok [of E s "surfaces s" "disp s"] assms by (auto simp: display_ok_def render_ok_def)
  then show ?thesis using assms
    by (intro exI [of _ surfs] exI [of _ d]) (simp add: damage_state_def display_ok_def view_ok_def)
qed

section \<open>Properties\<close>

definition demo_surface :: surface_t where
  "demo_surface = surface_zero\<lparr>s_surface := True, s_child := True, s_subsurface := True, s_width := 4, s_height := 2,
     s_scale := 1\<rparr>"

definition demo_state :: dewlock_state where
  "demo_state = (state_zero [] [] [])\<lparr>time_text := Some ''09:05'', date_text := Some ''May 1, 2025'',
     username := Some ''me'', config := cfg_init cfg_zero, wl_shm := True, surfaces := [demo_surface]\<rparr>"

lemma demo_display_ok: "display_ok demo_env demo_state"
proof -
  have "dims_fit 4 2 1" by (rule dims_fit_small) simp_all
  then have "surf_ok demo_surface"
    by (simp add: surf_ok_def demo_surface_def surface_zero_def pool_ok_def)
  moreover have "ev_ndebug demo_env" by (simp add: demo_env_def)
  ultimately show ?thesis using demo_env_ok(2)
    by (simp add: display_ok_def demo_state_def view_ok_def disp_ok_def state_zero_def)
qed



text \<open>
  C21: nothing on the screen depends on the password but its length: rendering a surface gives
  the same frame and the same resources for any two buffers of the same length.
\<close>

theorem frame_hides_password:
  assumes "sb_len pw = sb_len (password s)"
  shows "rnd_handle_render E (s\<lparr>password := pw\<rparr>) surf d = rnd_handle_render E s surf d"
  using assms by (intro rnd_handle_render_view) (simp add: view_def)

theorem frame_hides_password_witness:
  "rnd_handle_render demo_env
     (demo_state\<lparr>password := \<lparr>sb_buf = Some (8192, [98, 99, 0]), sb_cap = 3, sb_len = 2\<rparr>\<rparr>) demo_surface (disp demo_state) =
   rnd_handle_render demo_env
     (demo_state\<lparr>password := \<lparr>sb_buf = Some (4096, [49, 50, 0]), sb_cap = 3, sb_len = 2\<rparr>\<rparr>) demo_surface (disp demo_state)"
  using frame_hides_password [of "\<lparr>sb_buf = Some (8192, [98, 99, 0]), sb_cap = 3, sb_len = 2\<rparr>"
      "demo_state\<lparr>password := \<lparr>sb_buf = Some (4096, [49, 50, 0]), sb_cap = 3, sb_len = 2\<rparr>\<rparr>"]
  by simp

text \<open>
  C22: the password field shows asterisks only, never more than the characters that were typed
  take bytes nor than the 127 that the array holds, and while a password is verified as many as
  before.
\<close>

theorem password_field_is_asterisks:
  assumes "last_len < 128"
  shows "\<exists>len. set_password E s opts maxw 128 last_len = Done (replicate len (CHR ''*''), len) \<and> len < 128 \<and>
    (if auth_state s = AUTH_STATE_VALIDATING then len = last_len else len \<le> sb_len (password s))"
  using assms by (rule set_password_result)

theorem password_field_is_asterisks_witness:
  "\<exists>len. set_password demo_env demo_state
     \<lparr>dt_color = 0, dt_size = 16, dt_family = ''sans-serif'', dt_bold = False\<rparr> 288 128 0 =
     Done (replicate len (CHR ''*''), len) \<and> len < 128"
  using password_field_is_asterisks [of 0 demo_env demo_state
      "\<lparr>dt_color = 0, dt_size = 16, dt_family = ''sans-serif'', dt_bold = False\<rparr>" 288] by auto

text \<open>
  the size of the indicator buffer is a multiple of the scale, larger than the size of the
  surface by at least one and at most the scale.
\<close>

theorem frame_extent_is_multiple:
  assumes "frame_extent d scale = Some r" "0 < scale" "0 \<le> sint d"
  shows "r mod scale = 0 \<and> sint d < r \<and> r \<le> sint d + scale"
  using assms by (rule frame_extent_result)

theorem frame_extent_is_multiple_witness: "(1922 :: int) mod 2 = 0 \<and> (1920 :: int) < 1922"
proof -
  have "frame_extent 1920 2 = Some 1922" by (simp add: frame_extent_def int_ok_def)
  from frame_extent_is_multiple [OF this] show ?thesis by simp
qed

text \<open>
  the indicator buffer has the size of the surface and not of its buffer, while its scale is
  that of the surface: from scale two on it covers less than the width or height it is meant
  for.
\<close>

theorem indicator_is_not_scaled:
  assumes "frame_extent d scale = Some r" "2 \<le> scale" "scale + 2 < sint d"
  shows "r div scale < sint d \<and> r < sint d * scale"
proof -
  have r: "r \<le> sint d + scale" using frame_extent_result [OF assms(1)] assms(2,3) by linarith
  have "sint d + scale < sint d * 2" using assms(3) by linarith
  also have "\<dots> \<le> sint d * scale" using assms(2,3) by (intro mult_left_mono) auto
  finally have "r < sint d * scale" using r by linarith
  moreover have "r div scale * scale \<le> r"
    using assms(2) by (simp add: minus_mod_eq_div_mult [symmetric])
  ultimately have "r div scale * scale < sint d * scale" by linarith
  then show ?thesis using assms(2) \<open>r < sint d * scale\<close> by (simp add: mult_less_cancel_right)
qed

theorem indicator_is_not_scaled_witness: "(1922 :: int) div 2 < 1920"
proof -
  have "frame_extent 1920 2 = Some 1922" by (simp add: frame_extent_def int_ok_def)
  from indicator_is_not_scaled [OF this] show ?thesis by simp
qed

end
