(* ===== verification/Surfaces.thy ===== *)
theory Surfaces
  imports Render
begin

text \<open>
  The surfaces of \<^verbatim>\<open>main.c\<close>: one for every output, created when the session lock exists,
  configured by the compositor and destroyed with the output. A surface is stored back under
  its \<open>s_id\<close>. Creating a proxy asks \<open>ev_create\<close>; a request on a null proxy and on a session
  lock that does not exist or is destroyed is a crash.
\<close>

section \<open>The list of surfaces\<close>

definition find_surface :: "nat \<Rightarrow> dewlock_state \<Rightarrow> surface_t option" where
  "find_surface sid s = find (\<lambda>x. s_id x = sid) (surfaces s)"

definition put_surface :: "surface_t \<Rightarrow> dewlock_state \<Rightarrow> dewlock_state" where
  "put_surface surf s = s\<lparr>surfaces := map (\<lambda>x. if s_id x = s_id surf then surf else x) (surfaces s)\<rparr>"

definition render_surface :: "env \<Rightarrow> surface_t \<Rightarrow> dewlock_state \<Rightarrow> dewlock_state run" where
  "render_surface E surf s =
     run_of_comp (cmap (\<lambda>(surf', d). (put_surface surf' s)\<lparr>disp := d\<rparr>) (rnd_handle_render E s surf (disp s)))"

section \<open>Creation and destruction\<close>

text \<open>The first image for the output, else the last of the default images.\<close>

fun select_image_loop :: "dewlock_image list \<Rightarrow> string option \<Rightarrow> image_t option \<Rightarrow> image_t option" where
  "select_image_loop [] out default_image = default_image"
| "select_image_loop (i # is) out default_image =
     (if lenient_strcmp (di_output i) out = 0 then Some (di_surface i)
      else if di_output i = None then select_image_loop is out (Some (di_surface i))
      else select_image_loop is out default_image)"

definition select_image :: "dewlock_state \<Rightarrow> surface_t \<Rightarrow> image_t option" where
  "select_image s surf = select_image_loop (images s) (s_output_name surf) None"

definition surface_is_opaque :: "dewlock_state \<Rightarrow> surface_t \<Rightarrow> bool" where
  "surface_is_opaque s surf =
     (case s_image surf of
        Some img \<Rightarrow> im_opaque img
      | None \<Rightarrow> c_background (config s) AND 0xff = 0xff)"

definition create_surface :: "env \<Rightarrow> surface_t \<Rightarrow> dewlock_state \<Rightarrow> dewlock_state run" where
  "create_surface E surf s =
     (let n = creations s;
          surf1 = surf\<lparr>s_image := select_image s surf\<rparr> in
      if \<not> compositor s then Crashed
      else if \<not> ev_create E n then Exited 1 (put_surface surf1 (s\<lparr>creations := n + 1\<rparr>))
      else let surf2 = surf1\<lparr>s_surface := True\<rparr> in
      if \<not> ev_create E (n + 1) then Exited 1 (put_surface surf2 (s\<lparr>creations := n + 2\<rparr>))
      else let surf3 = surf2\<lparr>s_child := True\<rparr> in
      if \<not> subcompositor s then Crashed
      else if \<not> ev_create E (n + 2) then Exited 1 (put_surface surf3 (s\<lparr>creations := n + 3\<rparr>))
      else let surf4 = surf3\<lparr>s_subsurface := True\<rparr> in
      if session_lock s \<noteq> LockRequested \<or> \<not> ev_create E (n + 3) then Crashed
      else let surf5 = surf4\<lparr>s_lock_surface := True\<rparr>;
               opaque = (surface_is_opaque s surf5 \<and> bg_mode (config s) \<noteq> BACKGROUND_MODE_CENTER \<and>
                         bg_mode (config s) \<noteq> BACKGROUND_MODE_FIT) in
      if opaque \<and> \<not> ev_create E (n + 4) then Crashed
      else Running (put_surface
             (surf5\<lparr>s_opaque_region := (s_opaque_region surf \<or> opaque), s_created := True\<rparr>)
             (s\<lparr>creations := n + (if opaque then 5 else 4)\<rparr>)))"

definition destroy_surface :: "surface_t \<Rightarrow> dewlock_state \<Rightarrow> dewlock_state" where
  "destroy_surface surf s =
     (let (pool, g) = ctx_deinit (d_gfx (disp s)) (s_buffers surf)
      in s\<lparr>surfaces := filter (\<lambda>x. s_id x \<noteq> s_id surf) (surfaces s), disp := (disp s)\<lparr>d_gfx := g\<rparr>\<rparr>)"

text \<open>The loop of \<^verbatim>\<open>main\<close> over the surfaces, by their names.\<close>

fun create_surfaces :: "env \<Rightarrow> nat list \<Rightarrow> dewlock_state \<Rightarrow> dewlock_state run" where
  "create_surfaces E [] s = Running s"
| "create_surfaces E (sid # sids) s =
     (case find_surface sid s of
        None \<Rightarrow> Crashed
      | Some surf \<Rightarrow> rbind (create_surface E surf s) (create_surfaces E sids))"

section \<open>Handlers\<close>

definition handle_configure :: "env \<Rightarrow> u32 \<Rightarrow> u32 \<Rightarrow> surface_t \<Rightarrow> dewlock_state \<Rightarrow> dewlock_state run" where
  "handle_configure E width height surf s =
     render_surface E (surf\<lparr>s_width := width, s_height := height, s_dirty := True\<rparr>) s"

definition handle_frame_done :: "env \<Rightarrow> surface_t \<Rightarrow> dewlock_state \<Rightarrow> dewlock_state run" where
  "handle_frame_done E surf s =
     run_of_comp (cmap (\<lambda>(surf', d). (put_surface surf' s)\<lparr>disp := d\<rparr>)
       (surface_frame_handle_done E s surf (disp s)))"

definition handle_buffer_release :: "nat \<Rightarrow> surface_t \<Rightarrow> dewlock_state \<Rightarrow> dewlock_state run" where
  "handle_buffer_release k surf s =
     Running (put_surface (surf\<lparr>s_buffers := (s_buffers surf)[k := buffer_release (s_buffers surf ! k)]\<rparr>) s)"

definition handle_wl_output_geometry :: "env \<Rightarrow> int \<Rightarrow> surface_t \<Rightarrow> dewlock_state \<Rightarrow> dewlock_state run" where
  "handle_wl_output_geometry E subpixel surf s =
     (let surf1 = surf\<lparr>s_subpixel := subpixel\<rparr> in
      if run_display s then render_surface E (surf1\<lparr>s_dirty := True\<rparr>) s
      else Running (put_surface surf1 s))"

definition handle_wl_output_mode :: "dewlock_state \<Rightarrow> dewlock_state run" where
  "handle_wl_output_mode s = Running s"

definition handle_wl_output_done :: "env \<Rightarrow> surface_t \<Rightarrow> dewlock_state \<Rightarrow> dewlock_state run" where
  "handle_wl_output_done E surf s =
     (if \<not> s_created surf \<and> run_display s then create_surface E surf s else Running s)"

definition handle_wl_output_scale :: "env \<Rightarrow> int \<Rightarrow> surface_t \<Rightarrow> dewlock_state \<Rightarrow> dewlock_state run" where
  "handle_wl_output_scale E factor surf s =
     (let surf1 = surf\<lparr>s_scale := factor\<rparr> in
      if run_display s then render_surface E (surf1\<lparr>s_dirty := True\<rparr>) s
      else Running (put_surface surf1 s))"

definition handle_wl_output_name :: "string \<Rightarrow> surface_t \<Rightarrow> dewlock_state \<Rightarrow> dewlock_state run" where
  "handle_wl_output_name name surf s = Running (put_surface (surf\<lparr>s_output_name := Some name\<rparr>) s)"

definition handle_wl_output_description :: "dewlock_state \<Rightarrow> dewlock_state run" where
  "handle_wl_output_description s = Running s"

end
