(* ===== verification/Password.thy ===== *)
theory Password
  imports Render
begin

text \<open>
  \<^verbatim>\<open>src/password.c\<close>: what a key does to the password and to the timers. The contents of
  the buffer are the subject of \<open>Password_Text\<close>; this theory has the handlers on the whole
  state.
\<close>

section \<open>Timers\<close>

definition cancel_input_idle :: "dewlock_state \<Rightarrow> dewlock_state" where
  "cancel_input_idle s =
     s\<lparr>eventloop := timer_cancel loop_remove_timer (eventloop s) (input_idle_timer s),
       input_idle_timer := None\<rparr>"

definition pwd_schedule_auth_idle :: "env \<Rightarrow> dewlock_state \<Rightarrow> dewlock_state" where
  "pwd_schedule_auth_idle E s =
     (let (h, l) = timer_rearm (loop_add_timer (ev_loop E)) loop_remove_timer (eventloop s)
                     (auth_idle_timer s) 3000 SetAuthIdle
      in s\<lparr>eventloop := l, auth_idle_timer := h\<rparr>)"

definition schedule_password_clear :: "env \<Rightarrow> dewlock_state \<Rightarrow> dewlock_state" where
  "schedule_password_clear E s =
     (let (h, l) = timer_rearm (loop_add_timer (ev_loop E)) loop_remove_timer (eventloop s)
                     (clear_password_timer s) 10000 ClearPassword
      in s\<lparr>eventloop := l, clear_password_timer := h\<rparr>)"

definition cancel_password_clear :: "dewlock_state \<Rightarrow> dewlock_state" where
  "cancel_password_clear s =
     s\<lparr>eventloop := timer_cancel loop_remove_timer (eventloop s) (clear_password_timer s),
       clear_password_timer := None\<rparr>"

section \<open>Handlers\<close>

definition on_password :: "(sbuf_t \<Rightarrow> sbuf_t comp) \<Rightarrow> dewlock_state \<Rightarrow> dewlock_state run" where
  "on_password f s = run_of_comp (cmap (\<lambda>pw. s\<lparr>password := pw\<rparr>) (f (password s)))"

definition set_auth_idle :: "env \<Rightarrow> dewlock_state \<Rightarrow> dewlock_state run" where
  "set_auth_idle E s = damage_state E (s\<lparr>auth_idle_timer := None, auth_state := AUTH_STATE_IDLE\<rparr>)"

definition clear_password :: "env \<Rightarrow> dewlock_state \<Rightarrow> dewlock_state run" where
  "clear_password E s =
     rbind (on_password sbuf_clear (s\<lparr>clear_password_timer := None, input_state := INPUT_STATE_PRISTINE\<rparr>))
       (damage_state E)"

definition submit_password :: "env \<Rightarrow> dewlock_state \<Rightarrow> dewlock_state run" where
  "submit_password E s =
     (if auth_state s = AUTH_STATE_VALIDATING then Running s
      else let s1 = s\<lparr>input_state := INPUT_STATE_PRISTINE, auth_state := AUTH_STATE_VALIDATING\<rparr>;
               s2 = cancel_input_idle (cancel_password_clear s1)
           in case auth_write_request (writes s2) (req_pipe s2) (password s2) of
                Fault \<Rightarrow> Crashed
              | Blocked \<Rightarrow> Waiting
              | Done (res, pw, p, ws) \<Rightarrow>
                  (let s3 = s2\<lparr>password := pw, req_pipe := p, writes := ws\<rparr>
                   in damage_state E
                        (if res \<noteq> OK then pwd_schedule_auth_idle E (s3\<lparr>auth_state := AUTH_STATE_INVALID\<rparr>)
                         else s3)))"

text \<open>The keysyms of xkbcommon.\<close>

definition XKB_KEY_KP_Enter :: u32 where "XKB_KEY_KP_Enter = 0xff8d"
definition XKB_KEY_Return :: u32 where "XKB_KEY_Return = 0xff0d"
definition XKB_KEY_Delete :: u32 where "XKB_KEY_Delete = 0xffff"
definition XKB_KEY_BackSpace :: u32 where "XKB_KEY_BackSpace = 0xff08"
definition XKB_KEY_Escape :: u32 where "XKB_KEY_Escape = 0xff1b"
definition XKB_KEY_m :: u32 where "XKB_KEY_m = 0x6d"
definition XKB_KEY_d :: u32 where "XKB_KEY_d = 0x64"
definition XKB_KEY_j :: u32 where "XKB_KEY_j = 0x6a"
definition XKB_KEY_c :: u32 where "XKB_KEY_c = 0x63"
definition XKB_KEY_u :: u32 where "XKB_KEY_u = 0x75"

text \<open>\<^verbatim>\<open>Caps_Lock\<close>, then the left and right keys \<^verbatim>\<open>Shift\<close>, \<^verbatim>\<open>Control\<close>,
  \<^verbatim>\<open>Meta\<close>, \<^verbatim>\<open>Alt\<close> and \<^verbatim>\<open>Super\<close>.\<close>

definition modifier_keys :: "u32 list" where
  "modifier_keys = [0xffe5, 0xffe1, 0xffe2, 0xffe3, 0xffe4, 0xffe7, 0xffe8, 0xffe9, 0xffea, 0xffeb, 0xffec]"

definition key_erase :: "env \<Rightarrow> dewlock_state \<Rightarrow> dewlock_state run" where
  "key_erase E s =
     rbind
       (if xkb_control (xkb s)
        then rbind (on_password sbuf_clear s) (\<lambda>s1. Running (cancel_password_clear s1))
        else case backspace (password s) of
               Fault \<Rightarrow> Crashed
             | Blocked \<Rightarrow> Waiting
             | Done (erased, pw) \<Rightarrow>
                 (let s1 = s\<lparr>password := pw\<rparr>
                  in Running (if erased \<and> sb_len pw \<noteq> 0 then schedule_password_clear E s1
                              else cancel_password_clear s1)))
       (damage_state E)"

definition key_default :: "env \<Rightarrow> u32 \<Rightarrow> dewlock_state \<Rightarrow> dewlock_state run" where
  "key_default E codepoint s =
     (if codepoint = 0 then Running s
      else let s1 = (if auth_state s = AUTH_STATE_INVALID then s\<lparr>auth_state := AUTH_STATE_IDLE\<rparr> else s)
           in rbind (on_password (\<lambda>pw. append_ch pw codepoint) s1)
                (\<lambda>s2. damage_state E (schedule_password_clear E (s2\<lparr>input_state := INPUT_STATE_DIRTY\<rparr>))))"

definition pwd_handle_key :: "env \<Rightarrow> u32 \<Rightarrow> u32 \<Rightarrow> dewlock_state \<Rightarrow> dewlock_state run" where
  "pwd_handle_key E keysym codepoint s =
     (if auth_state s = AUTH_STATE_VALIDATING then Running s
      else if keysym \<in> {XKB_KEY_KP_Enter, XKB_KEY_Return} then submit_password E s
      else if keysym \<in> {XKB_KEY_Delete, XKB_KEY_BackSpace} then key_erase E s
      else if keysym = XKB_KEY_Escape then
        rbind (on_password sbuf_clear s)
          (\<lambda>s1. damage_state E (cancel_password_clear (s1\<lparr>input_state := INPUT_STATE_PRISTINE\<rparr>)))
      else if keysym \<in> set modifier_keys then damage_state E (schedule_password_clear E s)
      else if keysym \<in> {XKB_KEY_m, XKB_KEY_d, XKB_KEY_j} \<and> xkb_control (xkb s) then submit_password E s
      else if keysym \<in> {XKB_KEY_m, XKB_KEY_d, XKB_KEY_j, XKB_KEY_c, XKB_KEY_u} \<and> xkb_control (xkb s) then
        rbind (on_password sbuf_clear (s\<lparr>input_state := INPUT_STATE_DIRTY\<rparr>))
          (\<lambda>s1. damage_state E (cancel_password_clear s1))
      else key_default E codepoint s)"

end
