(* ===== verification/Clock.thy ===== *)
theory Clock
  imports Password
begin

text \<open>
  \<^verbatim>\<open>src/clock.c\<close>: the texts of the time and of the date, and the timer that renews them.
  The local time and the name of the month in the locale are answers of the C library; a name
  that does not fit in the array of 32 characters leaves it empty.
\<close>

definition clk_set_time :: "env \<Rightarrow> dewlock_state \<Rightarrow> dewlock_state" where
  "clk_set_time E s =
     (let lt = ev_now E (now_calls s);
          clock = snprintf_to 8 (print_02d (tm_hour lt) @ '':'' @ print_02d (tm_min lt));
          month = (if length (tm_month_name lt) < 32 then tm_month_name lt else []);
          date = snprintf_to 256 (month @ '' '' @ print_int (tm_mday lt) @ '', '' @ print_int (tm_year lt + 1900))
      in s\<lparr>time_text := Some clock, date_text := Some date, now_calls := now_calls s + 1\<rparr>)"

definition clk_schedule_timer :: "env \<Rightarrow> dewlock_state \<Rightarrow> dewlock_state" where
  "clk_schedule_timer E s =
     (let (h, l) = timer_rearm (loop_add_timer (ev_loop E)) loop_remove_timer (eventloop s)
                     (clock_timer s) 1000 SetTime
      in s\<lparr>eventloop := l, clock_timer := h\<rparr>)"

definition clk_cancel_timer :: "dewlock_state \<Rightarrow> dewlock_state" where
  "clk_cancel_timer s =
     s\<lparr>eventloop := timer_cancel loop_remove_timer (eventloop s) (clock_timer s), clock_timer := None\<rparr>"

definition set_time :: "env \<Rightarrow> dewlock_state \<Rightarrow> dewlock_state run" where
  "set_time E s = rbind (damage_state E (clk_set_time E s)) (\<lambda>s1. Running (clk_schedule_timer E s1))"

end
