(* ===== verification/Seat.thy ===== *)
theory Seat
  imports Password
begin

text \<open>
  \<^verbatim>\<open>src/seat.c\<close>: the handlers of the keyboard, of the pointer and of the seat. The first
  argument after the environment is the index of the seat.
\<close>

section \<open>Handlers\<close>

definition upd_seat :: "nat \<Rightarrow> (seat_t \<Rightarrow> seat_t) \<Rightarrow> dewlock_state \<Rightarrow> dewlock_state" where
  "upd_seat i f s = s\<lparr>seats := (seats s)[i := f (seats s ! i)]\<rparr>"

text \<open>
  The last argument is the mapping of the keymap: \<open>None\<close> if \<^verbatim>\<open>mmap\<close> fails, else its
  contents.
\<close>

definition keyboard_keymap ::
  "env \<Rightarrow> keymap_format \<Rightarrow> string option \<Rightarrow> dewlock_state \<Rightarrow> dewlock_state run" where
  "keyboard_keymap E format map_shm s =
     (case format of
        KEYMAP_XKB_V1 \<Rightarrow>
          (case map_shm of
             None \<Rightarrow> Exited 1 s
           | Some contents \<Rightarrow>
               (case xe_keymap_new (ev_xkb E) contents of
                  None \<Rightarrow> Exited 1 s
                | Some keymap \<Rightarrow>
                    (case xe_state_new (ev_xkb E) keymap of
                       None \<Rightarrow> Exited 1 s
                     | Some st \<Rightarrow> Running (s\<lparr>xkb := (xkb s)\<lparr>xkb_keymap := Some keymap, xkb_state := Some st\<rparr>\<rparr>))))
      | _ \<Rightarrow> Running (s\<lparr>xkb := (xkb s)\<lparr>xkb_keymap := None, xkb_state := None\<rparr>\<rparr>))"

definition stop_repeat :: "nat \<Rightarrow> dewlock_state \<Rightarrow> dewlock_state" where
  "stop_repeat i s =
     upd_seat i (\<lambda>seat. seat\<lparr>repeat_timer := None\<rparr>)
       (s\<lparr>eventloop := timer_cancel loop_remove_timer (eventloop s) (repeat_timer (seats s ! i))\<rparr>)"

definition keyboard_leave :: "nat \<Rightarrow> dewlock_state \<Rightarrow> dewlock_state run" where
  "keyboard_leave i s = Running (stop_repeat i s)"

definition start_repeat :: "env \<Rightarrow> nat \<Rightarrow> int \<Rightarrow> dewlock_state \<Rightarrow> dewlock_state" where
  "start_repeat E i ms s =
     (let (h, l) = loop_add_timer (ev_loop E) (eventloop s) ms (KeyboardRepeat i)
      in upd_seat i (\<lambda>seat. seat\<lparr>repeat_timer := h\<rparr>) (s\<lparr>eventloop := l\<rparr>))"

definition keyboard_repeat :: "env \<Rightarrow> nat \<Rightarrow> dewlock_state \<Rightarrow> dewlock_state run" where
  "keyboard_repeat E i s =
     (let seat = seats s ! i;
          s1 = start_repeat E i (repeat_period_ms seat) s
      in pwd_handle_key E (repeat_sym seat) (repeat_codepoint seat) s1)"

definition keyboard_key :: "env \<Rightarrow> nat \<Rightarrow> u32 \<Rightarrow> bool \<Rightarrow> dewlock_state \<Rightarrow> dewlock_state run" where
  "keyboard_key E i key pressed s =
     (case xkb_state (xkb s) of
        None \<Rightarrow> Running s
      | Some st \<Rightarrow>
          (let sym = xe_get_one_sym (ev_xkb E) st (key + 8);
               keycode = (if pressed then key + 8 else 0);
               codepoint = xe_get_utf32 (ev_xkb E) st keycode
           in rbind (if pressed then pwd_handle_key E sym codepoint s else Running s)
                (\<lambda>s1. let s2 = stop_repeat i s1 in
                  if pressed \<and> repeat_period_ms (seats s2 ! i) > 0
                  then Running (start_repeat E i (repeat_delay_ms (seats s2 ! i))
                         (upd_seat i (\<lambda>seat. seat\<lparr>repeat_sym := sym, repeat_codepoint := codepoint\<rparr>) s2))
                  else Running s2)))"

definition keyboard_modifiers ::
  "env \<Rightarrow> u32 \<Rightarrow> u32 \<Rightarrow> u32 \<Rightarrow> u32 \<Rightarrow> dewlock_state \<Rightarrow> dewlock_state run" where
  "keyboard_modifiers E depressed latched mods_locked grp s =
     (case xkb_state (xkb s) of
        None \<Rightarrow> Running s
      | Some st \<Rightarrow>
          (let layout_same = xe_layout_active (ev_xkb E) st grp;
               st1 = xe_update_mask (ev_xkb E) st depressed latched mods_locked grp;
               s1 = s\<lparr>xkb := (xkb s)\<lparr>xkb_state := Some st1\<rparr>\<rparr>;
               caps_lock = xe_caps_active (ev_xkb E) st1
           in rbind (if caps_lock \<noteq> (if xkb_caps_lock (xkb s1) then 1 else 0) \<or> layout_same = 0
                     then damage_state E (s1\<lparr>xkb := (xkb s1)\<lparr>xkb_caps_lock := (caps_lock \<noteq> 0)\<rparr>\<rparr>)
                     else Running s1)
                (\<lambda>s2. Running (s2\<lparr>xkb := (xkb s2)\<lparr>xkb_control := (xe_ctrl_active (ev_xkb E) st1 \<noteq> 0)\<rparr>\<rparr>))))"

definition keyboard_repeat_info :: "nat \<Rightarrow> int \<Rightarrow> int \<Rightarrow> dewlock_state \<Rightarrow> dewlock_state run" where
  "keyboard_repeat_info i rate delay s =
     Running (upd_seat i (\<lambda>seat. seat\<lparr>repeat_period_ms := (if rate \<le> 0 then - 1 else 1000 sdiv rate),
                                     repeat_delay_ms := delay\<rparr>) s)"

definition seat_handle_capabilities :: "nat \<Rightarrow> bool \<Rightarrow> bool \<Rightarrow> dewlock_state \<Rightarrow> dewlock_state run" where
  "seat_handle_capabilities i has_pointer has_keyboard s =
     Running (upd_seat i (\<lambda>seat. seat\<lparr>seat_pointer := has_pointer, seat_keyboard := has_keyboard\<rparr>) s)"

text \<open>The pointer: entering a surface asks for an empty cursor, the rest is ignored.\<close>

definition pointer_handler :: "nat \<Rightarrow> pointer_event \<Rightarrow> dewlock_state \<Rightarrow> dewlock_state run" where
  "pointer_handler i e s =
     (case e of
        PointerEnter serial \<Rightarrow> Running (upd_seat i (\<lambda>seat. seat\<lparr>seat_cursor := Some serial\<rparr>) s)
      | PointerLeave \<Rightarrow> Running s
      | PointerMotion \<Rightarrow> Running s
      | PointerButton \<Rightarrow> Running s
      | PointerAxis \<Rightarrow> Running s
      | PointerFrame \<Rightarrow> Running s
      | PointerAxisSource \<Rightarrow> Running s
      | PointerAxisStop \<Rightarrow> Running s
      | PointerAxisDiscrete \<Rightarrow> Running s)"

definition keyboard_enter :: "nat \<Rightarrow> dewlock_state \<Rightarrow> dewlock_state run" where
  "keyboard_enter i s = Running s"

definition seat_handle_name :: "nat \<Rightarrow> dewlock_state \<Rightarrow> dewlock_state run" where
  "seat_handle_name i s = Running s"

end
