(* ===== verification/Timers.thy ===== *)
theory Timers
  imports Clock Seat
begin

text \<open>
  The timers of the program: which handle in the state owns which timer of the loop, and that
  the functions that schedule and cancel them keep it so. The proofs use the contract of a timer
  service (\<open>loop_timers\<close>) and not the list of the loop.
\<close>


section \<open>Which handle owns which timer\<close>

definition timer_slot :: "dewlock_state \<Rightarrow> timer_cb \<Rightarrow> nat option" where
  "timer_slot s cb =
     (case cb of
        SetAuthIdle \<Rightarrow> auth_idle_timer s
      | ClearPassword \<Rightarrow> clear_password_timer s
      | SetTime \<Rightarrow> clock_timer s
      | KeyboardRepeat i \<Rightarrow> (if i < length (seats s) then repeat_timer (seats s ! i) else None))"

text \<open>
  Every handle is exactly the live timer of its callback, apart from the timers in \<open>X\<close>, whose
  callback is running.
\<close>

definition timers_inv :: "env \<Rightarrow> nat set \<Rightarrow> dewlock_state \<Rightarrow> bool" where
  "timers_inv E X s \<longleftrightarrow> loop_ok (ev_loop E) (eventloop s) \<and> X \<subseteq> timer_addrs (eventloop s) \<and>
     (\<forall>cb. slot_ok (live_timers (eventloop s)) X cb (timer_slot s cb)) \<and> input_idle_timer s = None"

definition alloc_ok :: "env \<Rightarrow> bool" where
  "alloc_ok E \<longleftrightarrow> (\<forall>n A. le_calloc (ev_loop E) n A \<noteq> None)"

text \<open>What a callback may do to the loop.\<close>

definition loop_grows :: "('f, 'cb) loop_t \<Rightarrow> ('f, 'cb) loop_t \<Rightarrow> bool" where
  "loop_grows l l' \<longleftrightarrow> (\<exists>new. timer_list l' = new @ timer_list l) \<and> fd_events l' = fd_events l \<and>
     fds l' = fds l \<and> fd_length l' = fd_length l"

lemma loop_grows_refl [simp, intro]: "loop_grows l l"
  by (simp add: loop_grows_def)

lemma loop_grows_trans: "loop_grows l l1 \<Longrightarrow> loop_grows l1 l2 \<Longrightarrow> loop_grows l l2"
  by (auto simp: loop_grows_def)

lemma loop_grows_addrs: "loop_grows l l' \<Longrightarrow> timer_addrs l \<subseteq> timer_addrs l'"
proof -
  assume "loop_grows l l'"
  then obtain new where "timer_list l' = new @ timer_list l" by (auto simp: loop_grows_def)
  then have "set (timer_list l') = set new \<union> set (timer_list l)" by simp
  then show ?thesis by (auto simp: timer_addrs_def)
qed

lemma loop_add_timer_grows: "loop_add_timer e l ms cb = (r, l') \<Longrightarrow> loop_grows l l'"
  by (auto simp: loop_add_timer_def loop_grows_def split: option.splits)

lemma loop_remove_timer_grows: "loop_wf l \<Longrightarrow> loop_remove_timer l a = (r, l') \<Longrightarrow> loop_grows l l'"
proof -
  assume "loop_wf l" "loop_remove_timer l a = (r, l')"
  then have "timers l' = map (mark a) (timers l)" and f: "fd_events l' = fd_events l \<and> fds l' = fds l \<and> fd_length l' = fd_length l"
    using loop_remove_timer_wf [of l a r l'] by (auto simp: loop_remove_timer_def split: prod.splits)
  then have "timer_list l' = [] @ timer_list l" using map_addr_mark [of a "timers l"] by simp
  with f show ?thesis unfolding loop_grows_def by blast
qed

lemma timer_cancel_grows: "loop_wf l \<Longrightarrow> loop_grows l (timer_cancel loop_remove_timer l h)"
proof (cases h)
  case (Some a)
  assume "loop_wf l"
  then have "loop_grows l (snd (loop_remove_timer l a))"
    by (rule loop_remove_timer_grows [OF _ prod.collapse [symmetric]])
  with Some show ?thesis by (simp add: timer_cancel_def)
qed (simp add: timer_cancel_def)

lemma timer_rearm_grows:
  assumes "loop_ok e l" "X \<subseteq> timer_addrs l" "slot_ok (live_timers l) X cb h"
    "timer_rearm (loop_add_timer e) loop_remove_timer l h ms cb = (h', l')"
  shows "loop_grows l l'"
proof -
  have "loop_grows l (timer_cancel loop_remove_timer l h)"
    using assms(1) by (intro timer_cancel_grows) (simp add: loop_ok_def)
  moreover have "loop_grows (timer_cancel loop_remove_timer l h) l'"
    using assms(4) unfolding timer_rearm_def by (rule loop_add_timer_grows)
  ultimately show ?thesis by (rule loop_grows_trans)
qed

lemma timer_rearm_some:
  "alloc_ok E \<Longrightarrow> timer_rearm (loop_add_timer (ev_loop E)) remove l h ms cb = (h', l') \<Longrightarrow> h' \<noteq> None"
  unfolding alloc_ok_def timer_rearm_def loop_add_timer_def
  by (metis (no_types, lifting) fst_conv not_None_eq option.simps(5))

text \<open>The effect of the scheduling functions on the invariant, in one lemma for the three of them.\<close>

lemma rearm_inv:
  assumes I: "timers_inv E X s" and r: "timer_rearm (loop_add_timer (ev_loop E)) loop_remove_timer (eventloop s)
      (timer_slot s cb) ms cb = (h, l)"
    and s': "eventloop s' = l" "timer_slot s' cb = h" "\<And>c. c \<noteq> cb \<Longrightarrow> timer_slot s' c = timer_slot s c"
      "input_idle_timer s' = None"
  shows "timers_inv E X s'" "loop_grows (eventloop s) (eventloop s')"
proof -
  have X: "loop_ok (ev_loop E) (eventloop s)" "X \<subseteq> timer_addrs (eventloop s)"
    "slot_ok (live_timers (eventloop s)) X cb (timer_slot s cb)"
    using I by (simp_all add: timers_inv_def)
  note n = loop_timers.rearm_slots [OF X r]
  show "timers_inv E X s'" using n I s' unfolding timers_inv_def by (metis subset_trans)
  show "loop_grows (eventloop s) (eventloop s')" using timer_rearm_grows [OF X r] s'(1) by simp
qed

lemma cancel_inv:
  assumes I: "timers_inv E X s"
    and s': "eventloop s' = timer_cancel loop_remove_timer (eventloop s) (timer_slot s cb)"
      "timer_slot s' cb = None" "\<And>c. c \<noteq> cb \<Longrightarrow> timer_slot s' c = timer_slot s c" "input_idle_timer s' = None"
  shows "timers_inv E X s'" "loop_grows (eventloop s) (eventloop s')"
proof -
  have X: "loop_ok (ev_loop E) (eventloop s)" "X \<subseteq> timer_addrs (eventloop s)"
    "slot_ok (live_timers (eventloop s)) X cb (timer_slot s cb)"
    using I by (simp_all add: timers_inv_def)
  note n = loop_timers.cancel_slots [OF X]
  show "timers_inv E X s'" using n I s' unfolding timers_inv_def by metis
  show "loop_grows (eventloop s) (eventloop s')"
    unfolding s'(1) using X(1) by (intro timer_cancel_grows) (simp add: loop_ok_def)
qed

lemma add_inv:
  assumes I: "timers_inv E X s" and e: "timer_slot s cb = None"
    and r: "loop_add_timer (ev_loop E) (eventloop s) ms cb = (h, l)"
    and s': "eventloop s' = l" "timer_slot s' cb = h" "\<And>c. c \<noteq> cb \<Longrightarrow> timer_slot s' c = timer_slot s c"
      "input_idle_timer s' = None"
  shows "timers_inv E X s'" "loop_grows (eventloop s) (eventloop s')"
proof -
  have "timer_rearm (loop_add_timer (ev_loop E)) loop_remove_timer (eventloop s) (timer_slot s cb) ms cb = (h, l)"
    using e r by (simp add: timer_rearm_def timer_cancel_def)
  from rearm_inv [OF I this s'] show "timers_inv E X s'" "loop_grows (eventloop s) (eventloop s')" by auto
qed

lemma timers_inv_cong:
  "timers_inv E X s \<Longrightarrow> eventloop s' = eventloop s \<Longrightarrow> input_idle_timer s' = input_idle_timer s \<Longrightarrow>
     (\<And>cb. timer_slot s' cb = timer_slot s cb) \<Longrightarrow> timers_inv E X s'"
  by (simp add: timers_inv_def)

lemma timers_inv_idle: "timers_inv E X s \<Longrightarrow> input_idle_timer s = None"
  by (simp add: timers_inv_def)

section \<open>The scheduling functions\<close>

lemma schedule_auth_idle_inv:
  assumes "timers_inv E X s"
  shows "timers_inv E X (pwd_schedule_auth_idle E s)" "loop_grows (eventloop s) (eventloop (pwd_schedule_auth_idle E s))"
proof -
  obtain h l where r: "timer_rearm (loop_add_timer (ev_loop E)) loop_remove_timer (eventloop s)
      (timer_slot s SetAuthIdle) 3000 SetAuthIdle = (h, l)" by fastforce
  then have s': "pwd_schedule_auth_idle E s = s\<lparr>eventloop := l, auth_idle_timer := h\<rparr>"
    by (simp add: pwd_schedule_auth_idle_def timer_slot_def)
  show "timers_inv E X (pwd_schedule_auth_idle E s)" "loop_grows (eventloop s) (eventloop (pwd_schedule_auth_idle E s))"
    unfolding s' using timers_inv_idle [OF assms]
    by (intro rearm_inv [OF assms r]; simp add: timer_slot_def split: timer_cb.split)+
qed

lemma schedule_password_clear_inv:
  assumes "timers_inv E X s"
  shows "timers_inv E X (schedule_password_clear E s)"
    "loop_grows (eventloop s) (eventloop (schedule_password_clear E s))"
    "alloc_ok E \<Longrightarrow> clear_password_timer (schedule_password_clear E s) \<noteq> None"
proof -
  obtain h l where r: "timer_rearm (loop_add_timer (ev_loop E)) loop_remove_timer (eventloop s)
      (timer_slot s ClearPassword) 10000 ClearPassword = (h, l)" by fastforce
  then have s': "schedule_password_clear E s = s\<lparr>eventloop := l, clear_password_timer := h\<rparr>"
    by (simp add: schedule_password_clear_def timer_slot_def)
  show "timers_inv E X (schedule_password_clear E s)"
    "loop_grows (eventloop s) (eventloop (schedule_password_clear E s))"
    unfolding s' using timers_inv_idle [OF assms]
    by (intro rearm_inv [OF assms r]; simp add: timer_slot_def split: timer_cb.split)+
  show "alloc_ok E \<Longrightarrow> clear_password_timer (schedule_password_clear E s) \<noteq> None"
    using timer_rearm_some [OF _ r] by (simp add: s')
qed

lemma cancel_password_clear_inv:
  assumes "timers_inv E X s"
  shows "timers_inv E X (cancel_password_clear s)" "loop_grows (eventloop s) (eventloop (cancel_password_clear s))"
  using timers_inv_idle [OF assms]
  by (intro cancel_inv [OF assms, where cb = ClearPassword];
      simp add: cancel_password_clear_def timer_slot_def split: timer_cb.split)+

lemma cancel_input_idle_noop: "input_idle_timer s = None \<Longrightarrow> cancel_input_idle s = s"
  by (simp add: cancel_input_idle_def timer_cancel_def)

lemma clk_schedule_timer_inv:
  assumes "timers_inv E X s"
  shows "timers_inv E X (clk_schedule_timer E s)" "loop_grows (eventloop s) (eventloop (clk_schedule_timer E s))"
    "alloc_ok E \<Longrightarrow> clock_timer (clk_schedule_timer E s) \<noteq> None"
proof -
  obtain h l where r: "timer_rearm (loop_add_timer (ev_loop E)) loop_remove_timer (eventloop s)
      (timer_slot s SetTime) 1000 SetTime = (h, l)" by fastforce
  then have s': "clk_schedule_timer E s = s\<lparr>eventloop := l, clock_timer := h\<rparr>"
    by (simp add: clk_schedule_timer_def timer_slot_def)
  show "timers_inv E X (clk_schedule_timer E s)" "loop_grows (eventloop s) (eventloop (clk_schedule_timer E s))"
    unfolding s' using timers_inv_idle [OF assms]
    by (intro rearm_inv [OF assms r]; simp add: timer_slot_def split: timer_cb.split)+
  show "alloc_ok E \<Longrightarrow> clock_timer (clk_schedule_timer E s) \<noteq> None"
    using timer_rearm_some [OF _ r] by (simp add: s')
qed

lemma clk_cancel_timer_inv:
  assumes "timers_inv E X s"
  shows "timers_inv E X (clk_cancel_timer s)" "loop_grows (eventloop s) (eventloop (clk_cancel_timer s))"
  using timers_inv_idle [OF assms]
  by (intro cancel_inv [OF assms, where cb = SetTime];
      simp add: clk_cancel_timer_def timer_slot_def split: timer_cb.split)+

lemma stop_repeat_inv:
  assumes "timers_inv E X s" "i < length (seats s)"
  shows "timers_inv E X (stop_repeat i s)" "loop_grows (eventloop s) (eventloop (stop_repeat i s))"
    "timer_slot (stop_repeat i s) (KeyboardRepeat i) = None"
proof -
  show "timer_slot (stop_repeat i s) (KeyboardRepeat i) = None"
    using assms(2) by (simp add: stop_repeat_def upd_seat_def timer_slot_def)
  show "timers_inv E X (stop_repeat i s)" "loop_grows (eventloop s) (eventloop (stop_repeat i s))"
    using timers_inv_idle [OF assms(1)] assms(2)
    by (intro cancel_inv [OF assms(1), where cb = "KeyboardRepeat i"];
        simp add: stop_repeat_def upd_seat_def timer_slot_def nth_list_update split: timer_cb.split)+
qed

lemma start_repeat_inv:
  assumes "timers_inv E X s" "i < length (seats s)" "timer_slot s (KeyboardRepeat i) = None"
  shows "timers_inv E X (start_repeat E i ms s)" "loop_grows (eventloop s) (eventloop (start_repeat E i ms s))"
proof -
  obtain h l where r: "loop_add_timer (ev_loop E) (eventloop s) ms (KeyboardRepeat i) = (h, l)" by fastforce
  have s': "start_repeat E i ms s = upd_seat i (\<lambda>seat. seat\<lparr>repeat_timer := h\<rparr>) (s\<lparr>eventloop := l\<rparr>)"
    by (simp add: start_repeat_def r)
  show "timers_inv E X (start_repeat E i ms s)" "loop_grows (eventloop s) (eventloop (start_repeat E i ms s))"
    unfolding s' using timers_inv_idle [OF assms(1)] assms(2)
    by (intro add_inv [OF assms(1,3) r];
        simp add: upd_seat_def timer_slot_def nth_list_update split: timer_cb.split)+
qed

section \<open>When a timer fires\<close>

lemma slot_ok_running: "slot_ok L {} cb h \<Longrightarrow> (\<And>c. (a, c) \<notin> L) \<Longrightarrow> slot_ok L {a} cb h"
  by (auto simp: slot_ok_def)

text \<open>The callback is told apart by the timer that fired; its handle is given up.\<close>

lemma timers_inv_fired:
  assumes I: "timers_inv E {} s" and live: "(a, cb) \<in> live_timers (eventloop s)"
    and s': "eventloop s' = eventloop s" "timer_slot s' cb = None" "\<And>c. c \<noteq> cb \<Longrightarrow> timer_slot s' c = timer_slot s c"
      "input_idle_timer s' = None"
  shows "timers_inv E {a} s'"
proof -
  let ?L = "live_timers (eventloop s)"
  have ok: "loop_ok (ev_loop E) (eventloop s)" using I by (simp add: timers_inv_def)
  have u: "(a, c) \<in> ?L \<Longrightarrow> c = cb" for c using loop_timers.live_unique [OF ok _ live] by blast
  have slots: "(x, c) \<in> ?L \<longleftrightarrow> timer_slot s c = Some x" for x c
    using I by (simp add: timers_inv_def slot_ok_def)
  have "slot_ok ?L {a} c (timer_slot s' c)" for c
  proof (cases "c = cb")
    case True
    have "timer_slot s cb = Some a" using live by (simp add: slots)
    then show ?thesis by (simp add: slot_ok_def slots True s')
  next
    case False
    then have "timer_slot s c \<noteq> Some a" using u slots by blast
    then show ?thesis by (auto simp: slot_ok_def slots s' False)
  qed
  moreover have "a \<in> timer_addrs (eventloop s)" using live by (rule loop_timers.live_addrs)
  ultimately show ?thesis using ok s' by (simp add: timers_inv_def)
qed

lemma image_restrict: "{x \<in> f ` A. P x} = f ` {t \<in> A. P (f t)}"
  by blast

lemma live_timers_unlink: "live_timers (unlink a l) = {x \<in> live_timers l. fst x \<noteq> a}"
proof -
  have "{t \<in> set (timers (unlink a l)). \<not> t_removed t} = {t \<in> set (timers l). \<not> t_removed t \<and> t_addr t \<noteq> a}"
    by (simp add: unlink_def) blast
  then have "live_timers (unlink a l) =
      (\<lambda>t. (t_addr t, t_callback t)) ` {t \<in> set (timers l). \<not> t_removed t \<and> t_addr t \<noteq> a}"
    unfolding live_timers_image by (rule arg_cong)
  moreover have "(\<lambda>t. (t_addr t, t_callback t)) ` {t \<in> set (timers l). \<not> t_removed t \<and> t_addr t \<noteq> a} =
      {x \<in> live_timers l. fst x \<noteq> a}"
    unfolding live_timers_image image_restrict by simp
  ultimately show ?thesis by (rule trans)
qed

lemma loop_wf_unlink: "loop_wf l \<Longrightarrow> loop_wf (unlink a l)"
  by (auto simp: loop_wf_def unlink_def distinct_map inj_on_def)

lemma timers_inv_unlink:
  assumes "timers_inv E {a} s"
  shows "timers_inv E {} (set_eventloop (unlink a) s)"
proof -
  have "timer_slot (set_eventloop (unlink a) s) cb = timer_slot s cb" for cb
    by (simp add: timer_slot_def set_eventloop_def split: timer_cb.split)
  then show ?thesis using assms
    by (auto simp: timers_inv_def slot_ok_def live_timers_unlink loop_ok_def loop_wf_unlink set_eventloop_def)
qed

lemma timers_inv_unlink_removed:
  assumes "timers_inv E {} s" "t \<in> set (timers (eventloop s))" "t_removed t"
  shows "timers_inv E {} (set_eventloop (unlink (t_addr t)) s)"
proof -
  have "timer_slot (set_eventloop (unlink a) s) cb = timer_slot s cb" for cb a
    by (simp add: timer_slot_def set_eventloop_def split: timer_cb.split)
  moreover have "(t_addr t, c) \<notin> live_timers (eventloop s)" for c
    using assms by (auto simp: live_timers_def timers_inv_def loop_ok_def loop_wf_def distinct_map inj_on_def)
  then have "live_timers (unlink (t_addr t) (eventloop s)) = live_timers (eventloop s)"
    by (auto simp: live_timers_unlink)
  ultimately show ?thesis using assms(1)
    by (simp add: timers_inv_def loop_ok_def loop_wf_unlink set_eventloop_def)
qed

end
