(* ===== verification/Dispatch.thy ===== *)
theory Dispatch
  imports Surfaces Timers
begin

text \<open>
  What happens between two waits of the program: the globals and the session lock of
  \<^verbatim>\<open>main.c\<close>, the delivery of the compositor's events to their handlers, and the callbacks
  of the event loop. An event for an object that does not exist is dropped, as the Wayland
  library does for destroyed objects.
\<close>

section \<open>Globals\<close>

definition handle_global :: "env \<Rightarrow> u32 \<Rightarrow> string \<Rightarrow> dewlock_state \<Rightarrow> dewlock_state run" where
  "handle_global E name interface s =
     (if strcmp interface ''wl_compositor'' = 0 then Running (s\<lparr>compositor := True\<rparr>)
      else if strcmp interface ''wl_subcompositor'' = 0 then Running (s\<lparr>subcompositor := True\<rparr>)
      else if strcmp interface ''wl_shm'' = 0 then Running (s\<lparr>wl_shm := True\<rparr>)
      else if strcmp interface ''wl_seat'' = 0 then
        (if \<not> ev_alloc E (next_id s) then Crashed
         else Running (s\<lparr>seats := seats s @ [seat_zero], next_id := next_id s + 1\<rparr>))
      else if strcmp interface ''wl_output'' = 0 then
        (if \<not> ev_alloc E (next_id s) then Crashed
         else Running (s\<lparr>surfaces := surface_zero\<lparr>s_id := next_id s, s_output_global_name := name\<rparr> # surfaces s,
                         next_id := next_id s + 1\<rparr>))
      else if strcmp interface ''ext_session_lock_manager_v1'' = 0 then Running (s\<lparr>lock_manager := True\<rparr>)
      else Running s)"

definition handle_global_remove :: "u32 \<Rightarrow> dewlock_state \<Rightarrow> dewlock_state run" where
  "handle_global_remove name s =
     (case find (\<lambda>x. s_output_global_name x = name) (surfaces s) of
        None \<Rightarrow> Running s
      | Some surf \<Rightarrow> Running (destroy_surface surf s))"

section \<open>The session lock\<close>

definition handle_locked :: "dewlock_state \<Rightarrow> dewlock_state run" where
  "handle_locked s = Running (s\<lparr>locked := True\<rparr>)"

definition handle_finished :: "dewlock_state \<Rightarrow> dewlock_state run" where
  "handle_finished s = Exited 2 s"

section \<open>Delivery of events\<close>

definition on_surface :: "nat \<Rightarrow> (surface_t \<Rightarrow> dewlock_state \<Rightarrow> dewlock_state run) \<Rightarrow> dewlock_state \<Rightarrow> dewlock_state run" where
  "on_surface sid f s = (case find_surface sid s of None \<Rightarrow> Running s | Some surf \<Rightarrow> f surf s)"

definition on_seat :: "nat \<Rightarrow> (seat_t \<Rightarrow> bool) \<Rightarrow> (dewlock_state \<Rightarrow> dewlock_state run) \<Rightarrow> dewlock_state \<Rightarrow> dewlock_state run" where
  "on_seat i P f s = (if i < length (seats s) \<and> P (seats s ! i) then f s else Running s)"

definition handle_event :: "env \<Rightarrow> wl_event \<Rightarrow> dewlock_state \<Rightarrow> dewlock_state run" where
  "handle_event E e s =
     (case e of
        Global name interface \<Rightarrow> handle_global E name interface s
      | GlobalRemove name \<Rightarrow> handle_global_remove name s
      | OutputGeometry sid subpixel \<Rightarrow> on_surface sid (handle_wl_output_geometry E subpixel) s
      | OutputMode sid \<Rightarrow> handle_wl_output_mode s
      | OutputDone sid \<Rightarrow> on_surface sid (handle_wl_output_done E) s
      | OutputScale sid factor \<Rightarrow> on_surface sid (handle_wl_output_scale E factor) s
      | OutputName sid name \<Rightarrow> on_surface sid (handle_wl_output_name name) s
      | OutputDescription sid \<Rightarrow> handle_wl_output_description s
      | Configure sid w h \<Rightarrow>
          on_surface sid (\<lambda>surf s. if s_lock_surface surf then handle_configure E w h surf s else Running s) s
      | FrameDone sid \<Rightarrow>
          on_surface sid (\<lambda>surf s. if s_frame surf then handle_frame_done E surf s else Running s) s
      | BufferRelease sid k \<Rightarrow>
          on_surface sid (\<lambda>surf s. if k < length (s_buffers surf) \<and> ctx_buffer (s_buffers surf ! k)
                                 then handle_buffer_release k surf s else Running s) s
      | Locked \<Rightarrow> handle_locked s
      | Finished \<Rightarrow> handle_finished s
      | SeatCapabilities i has_pointer has_keyboard \<Rightarrow>
          on_seat i (\<lambda>_. True) (seat_handle_capabilities i has_pointer has_keyboard) s
      | SeatName i \<Rightarrow> on_seat i (\<lambda>_. True) (seat_handle_name i) s
      | Pointer i pe \<Rightarrow> on_seat i seat_pointer (pointer_handler i pe) s
      | Keymap i format map_shm \<Rightarrow> on_seat i seat_keyboard (keyboard_keymap E format map_shm) s
      | KeyboardEnter i \<Rightarrow> on_seat i seat_keyboard (keyboard_enter i) s
      | KeyboardLeave i \<Rightarrow> on_seat i seat_keyboard (keyboard_leave i) s
      | Key i key pressed \<Rightarrow> on_seat i seat_keyboard (keyboard_key E i key pressed) s
      | Modifiers i depressed latched mods_locked grp \<Rightarrow>
          on_seat i seat_keyboard (keyboard_modifiers E depressed latched mods_locked grp) s
      | RepeatInfo i rate delay \<Rightarrow> on_seat i seat_keyboard (keyboard_repeat_info i rate delay) s)"

fun handle_events :: "env \<Rightarrow> wl_event list \<Rightarrow> dewlock_state \<Rightarrow> dewlock_state run" where
  "handle_events E [] s = Running s"
| "handle_events E (e # es) s = rbind (handle_event E e s) (handle_events E es)"

text \<open>
  \<^verbatim>\<open>wl_display_dispatch\<close> and \<^verbatim>\<open>wl_display_roundtrip\<close>: the events of one batch, or
  \<open>failed\<close> if the call fails.
\<close>

definition display_dispatch ::
  "env \<Rightarrow> (dewlock_state \<Rightarrow> dewlock_state run) \<Rightarrow> dewlock_state \<Rightarrow> dewlock_state run" where
  "display_dispatch E failed s =
     (case inbox s of
        [] \<Rightarrow> Waiting
      | None # rest \<Rightarrow> failed (s\<lparr>inbox := rest\<rparr>)
      | Some es # rest \<Rightarrow> handle_events E es (s\<lparr>inbox := rest\<rparr>))"

section \<open>Callbacks of the event loop\<close>

definition display_in :: "env \<Rightarrow> dewlock_state \<Rightarrow> dewlock_state run" where
  "display_in E s = display_dispatch E (\<lambda>s. Running (s\<lparr>run_display := False\<rparr>)) s"

definition reply_in :: "env \<Rightarrow> mask \<Rightarrow> dewlock_state \<Rightarrow> dewlock_state run" where
  "reply_in E m s =
     (if m AND POLLIN \<noteq> 0 then
        (case auth_read_reply (reads s) (rep_pipe s) False of
           Fault \<Rightarrow> Crashed
         | Blocked \<Rightarrow> Waiting
         | Done (res, auth_success, p, rs) \<Rightarrow>
             (let s1 = s\<lparr>rep_pipe := p, reads := rs\<rparr> in
              if res \<noteq> OK then Exited 1 s1
              else if auth_success then Running (s1\<lparr>run_display := False\<rparr>)
              else damage_state E
                     ((pwd_schedule_auth_idle E (s1\<lparr>auth_state := AUTH_STATE_INVALID\<rparr>))
                        \<lparr>failed_attempts := failed_attempts s1 + 1\<rparr>)))
      else if m AND (POLLHUP OR POLLERR) \<noteq> 0 then Exited 1 s
      else Running s)"

definition term_in :: "dewlock_state \<Rightarrow> dewlock_state run" where
  "term_in s = Running (s\<lparr>run_display := False\<rparr>)"

definition run_fd :: "env \<Rightarrow> fd_cb \<Rightarrow> int \<Rightarrow> mask \<Rightarrow> dewlock_state \<Rightarrow> dewlock_state run" where
  "run_fd E k fd m s =
     (case k of DisplayIn \<Rightarrow> display_in E s | ReplyIn \<Rightarrow> reply_in E m s | TermIn \<Rightarrow> term_in s)"

definition run_timer :: "env \<Rightarrow> timer_cb \<Rightarrow> dewlock_state \<Rightarrow> dewlock_state run" where
  "run_timer E cb s =
     (case cb of
        SetAuthIdle \<Rightarrow> set_auth_idle E s
      | ClearPassword \<Rightarrow> clear_password E s
      | SetTime \<Rightarrow> set_time E s
      | KeyboardRepeat i \<Rightarrow> keyboard_repeat E i s)"

end
