(* ===== verification/Invariants.thy ===== *)
theory Invariants
  imports Dispatch
begin

text \<open>
  The invariant of the program between two callbacks, and that the handlers of timers, keys and the
  seat keep it (for surfaces, globals and events see \<open>Handlers\<close>).
  \<open>inv E M N X s\<close> puts together: the timers (\<open>timers_inv\<close>), the password buffer, which
  holds characters, is empty while a verification is pending and is never left with characters
  and without the timer that clears it (\<open>pw_inv\<close>), the surfaces, whose sides are at most
  \<open>M\<close> and whose scales are at most \<open>N\<close> (\<open>screen_inv\<close>), and the objects of the compositor
  (\<open>world_inv\<close>). \<open>M\<close> and \<open>N\<close> bound what the compositor may send, so that the
  32-bit sizes of the buffers do not overflow.
\<close>

section \<open>The invariant\<close>

definition env_ok :: "env \<Rightarrow> bool" where
  "env_ok E \<longleftrightarrow> loop_env_ok (ev_loop E) \<and> shm_env_ok (ev_shm E) \<and> (\<forall>n. ev_alloc E n) \<and> (\<forall>n. ev_create E n)"

definition limits_ok :: "int \<Rightarrow> int \<Rightarrow> bool" where
  "limits_ok M N \<longleftrightarrow> 0 \<le> M \<and> 0 \<le> N \<and> M * N \<le> 15000"

definition event_ok :: "int \<Rightarrow> int \<Rightarrow> wl_event \<Rightarrow> bool" where
  "event_ok M N e \<longleftrightarrow>
     (case e of
        Configure sid w h \<Rightarrow> 0 \<le> sint w \<and> sint w \<le> M \<and> 0 \<le> sint h \<and> sint h \<le> M
      | OutputScale sid f \<Rightarrow> 0 \<le> f \<and> f \<le> N
      | _ \<Rightarrow> True)"

definition inbox_ok :: "int \<Rightarrow> int \<Rightarrow> wl_event list option list \<Rightarrow> bool" where
  "inbox_ok M N inb \<longleftrightarrow> (\<forall>es. Some es \<in> set inb \<longrightarrow> list_all (event_ok M N) es)"

definition pw_inv :: "env \<Rightarrow> dewlock_state \<Rightarrow> bool" where
  "pw_inv E s \<longleftrightarrow> (\<exists>cps. pw_repr 1024 (password s) cps) \<and>
     (auth_state s = AUTH_STATE_VALIDATING \<longrightarrow> sb_len (password s) = 0) \<and>
     (alloc_ok E \<longrightarrow> sb_len (password s) \<noteq> 0 \<longrightarrow> clear_password_timer s \<noteq> None)"

definition surf_inv :: "int \<Rightarrow> int \<Rightarrow> surface_t \<Rightarrow> bool" where
  "surf_inv M N x \<longleftrightarrow> pool_ok (s_buffers x) \<and> 0 \<le> sint (s_width x) \<and> sint (s_width x) \<le> M \<and>
     0 \<le> sint (s_height x) \<and> sint (s_height x) \<le> M \<and> 0 \<le> s_scale x \<and> s_scale x \<le> N \<and>
     (s_lock_surface x \<longrightarrow> s_surface x \<and> s_child x \<and> s_subsurface x) \<and>
     (s_width x \<noteq> 0 \<or> s_height x \<noteq> 0 \<longrightarrow> s_lock_surface x)"

definition screen_inv :: "env \<Rightarrow> int \<Rightarrow> int \<Rightarrow> dewlock_state \<Rightarrow> bool" where
  "screen_inv E M N s \<longleftrightarrow> view_ok E s \<and> disp_ok (disp s) \<and> (\<forall>x\<in>set (surfaces s). surf_inv M N x) \<and>
     distinct (map s_id (surfaces s)) \<and> (\<forall>x\<in>set (surfaces s). s_id x < next_id s)"

definition world_inv :: "int \<Rightarrow> int \<Rightarrow> dewlock_state \<Rightarrow> bool" where
  "world_inv M N s \<longleftrightarrow> inbox_ok M N (inbox s) \<and>
     (run_display s \<longrightarrow> compositor s \<and> subcompositor s \<and> session_lock s = LockRequested)"

definition inv :: "env \<Rightarrow> int \<Rightarrow> int \<Rightarrow> nat set \<Rightarrow> dewlock_state \<Rightarrow> bool" where
  "inv E M N X s \<longleftrightarrow> env_ok E \<and> limits_ok M N \<and> timers_inv E X s \<and> pw_inv E s \<and> screen_inv E M N s \<and> world_inv M N s"

text \<open>What a handler leaves as it is or lets grow.\<close>

definition control :: "dewlock_state \<Rightarrow> bool \<times> pipe_t \<times> read_event list \<times> wl_event list option list \<times> session_lock" where
  "control s = (run_display s, rep_pipe s, reads s, inbox s, session_lock s)"

definition grows :: "dewlock_state \<Rightarrow> dewlock_state \<Rightarrow> bool" where
  "grows s s' \<longleftrightarrow> loop_grows (eventloop s) (eventloop s') \<and> length (seats s) \<le> length (seats s') \<and>
     control s' = control s \<and> (compositor s \<longrightarrow> compositor s') \<and> (subcompositor s \<longrightarrow> subcompositor s')"

text \<open>A handler that ends the process reports a failure, and does not touch the session lock \<open>L\<close>.\<close>

definition fin :: "session_lock \<Rightarrow> int \<Rightarrow> dewlock_state \<Rightarrow> bool" where
  "fin L c s \<longleftrightarrow> c \<noteq> 0 \<and> session_lock s = L"

definition keeps :: "env \<Rightarrow> int \<Rightarrow> int \<Rightarrow> nat set \<Rightarrow> dewlock_state \<Rightarrow> dewlock_state run \<Rightarrow> bool" where
  "keeps E M N X s m \<longleftrightarrow> run_all (\<lambda>s'. inv E M N X s' \<and> grows s s') (fin (session_lock s)) m"

named_theorems inv_simps "the parts of the invariant and the fields they do not depend on"

lemmas [inv_simps] = inv_def pw_inv_def screen_inv_def world_inv_def view_ok_def grows_def control_def

lemma timers_inv_frame [inv_simps]:
  "timers_inv E X (s\<lparr>surfaces := v1\<rparr>) = timers_inv E X s" "timers_inv E X (s\<lparr>disp := v2\<rparr>) = timers_inv E X s"
  "timers_inv E X (s\<lparr>password := v3\<rparr>) = timers_inv E X s" "timers_inv E X (s\<lparr>auth_state := v4\<rparr>) = timers_inv E X s"
  "timers_inv E X (s\<lparr>input_state := v5\<rparr>) = timers_inv E X s" "timers_inv E X (s\<lparr>time_text := v6\<rparr>) = timers_inv E X s"
  "timers_inv E X (s\<lparr>date_text := v7\<rparr>) = timers_inv E X s" "timers_inv E X (s\<lparr>now_calls := v8\<rparr>) = timers_inv E X s"
  "timers_inv E X (s\<lparr>xkb := v9\<rparr>) = timers_inv E X s" "timers_inv E X (s\<lparr>inbox := w1\<rparr>) = timers_inv E X s"
  "timers_inv E X (s\<lparr>run_display := w2\<rparr>) = timers_inv E X s" "timers_inv E X (s\<lparr>locked := w3\<rparr>) = timers_inv E X s"
  "timers_inv E X (s\<lparr>compositor := w3\<rparr>) = timers_inv E X s" "timers_inv E X (s\<lparr>subcompositor := w3\<rparr>) = timers_inv E X s"
  "timers_inv E X (s\<lparr>wl_shm := w3\<rparr>) = timers_inv E X s" "timers_inv E X (s\<lparr>lock_manager := w3\<rparr>) = timers_inv E X s"
  "timers_inv E X (s\<lparr>creations := w4\<rparr>) = timers_inv E X s" "timers_inv E X (s\<lparr>next_id := w4\<rparr>) = timers_inv E X s"
  "timers_inv E X (s\<lparr>req_pipe := w5\<rparr>) = timers_inv E X s" "timers_inv E X (s\<lparr>rep_pipe := w5\<rparr>) = timers_inv E X s"
  "timers_inv E X (s\<lparr>writes := w6\<rparr>) = timers_inv E X s" "timers_inv E X (s\<lparr>reads := w7\<rparr>) = timers_inv E X s"
  "timers_inv E X (s\<lparr>failed_attempts := w8\<rparr>) = timers_inv E X s"
  by (simp_all add: timers_inv_def timer_slot_def cong: timer_cb.case_cong if_cong)

section \<open>Composition\<close>

lemma grows_refl [simp]: "grows s s"
  by (simp add: grows_def)

lemma grows_trans: "grows s t \<Longrightarrow> grows t u \<Longrightarrow> grows s u"
  by (auto simp: grows_def intro: loop_grows_trans)

lemma grows_control:
  "grows s t \<Longrightarrow> session_lock t = session_lock s" "grows s t \<Longrightarrow> run_display t = run_display s"
  "grows s t \<Longrightarrow> rep_pipe t = rep_pipe s" "grows s t \<Longrightarrow> inbox t = inbox s"
  by (simp_all add: grows_def control_def)

lemma keeps_Running [simp]: "keeps E M N X s (Running s') \<longleftrightarrow> inv E M N X s' \<and> grows s s'"
  by (simp add: keeps_def)

lemma keeps_from: "grows s t \<Longrightarrow> keeps E M N X t m \<Longrightarrow> keeps E M N X s m"
  unfolding keeps_def by (erule run_all_mono) (auto intro: grows_trans simp: fin_def dest: grows_control)

lemma keeps_rbind:
  assumes "keeps E M N X s m" "\<And>t. inv E M N X t \<Longrightarrow> grows s t \<Longrightarrow> keeps E M N X t (f t)"
  shows "keeps E M N X s (rbind m f)"
  using assms keeps_from unfolding keeps_def by (intro run_all_rbind) blast+

lemma keeps_rbind':
  assumes "keeps E M N X s m" "\<And>t. inv E M N X t \<Longrightarrow> keeps E M N X t (f t)"
  shows "keeps E M N X s (rbind m f)"
  using assms by (intro keeps_rbind)

lemma keeps_if: "(b \<Longrightarrow> keeps E M N X s m) \<Longrightarrow> (\<not> b \<Longrightarrow> keeps E M N X s n) \<Longrightarrow> keeps E M N X s (if b then m else n)"
  by simp

lemma invD:
  assumes "inv E M N X s"
  shows "env_ok E" "limits_ok M N" "timers_inv E X s" "pw_inv E s" "screen_inv E M N s" "world_inv M N s"
    "input_idle_timer s = None"
  using assms timers_inv_idle by (auto simp: inv_def)

section \<open>Redrawing\<close>

lemma surf_inv_ok:
  assumes "limits_ok M N" "surf_inv M N x"
  shows "surf_ok x"
proof -
  have w: "sint (s_width x) * s_scale x \<le> 15000" "sint (s_height x) * s_scale x \<le> 15000"
    using mult_mono [of "sint (s_width x)" M "s_scale x" N] mult_mono [of "sint (s_height x)" M "s_scale x" N] assms
    by (auto simp: limits_ok_def surf_inv_def)
  have "dims_fit (s_width x) (s_height x) (s_scale x)"
  proof (cases "s_scale x = 0")
    case True
    then show ?thesis by (simp add: dims_fit_def int_ok_def)
  next
    case False
    then show ?thesis using dims_fit_small [OF _ w] assms(2) by (simp add: surf_inv_def)
  qed
  then show ?thesis using assms(2) by (auto simp: surf_ok_def surf_inv_def)
qed

lemma surf_inv_geometry:
  "surf_inv M N x \<Longrightarrow> geometry y = geometry x \<Longrightarrow> pool_ok (s_buffers y) \<Longrightarrow> surf_inv M N y"
  by (auto simp: surf_inv_def geometry_def)

lemma surfs_inv_geometry:
  "\<forall>x\<in>set xs. surf_inv M N x \<Longrightarrow> map geometry ys = map geometry xs \<Longrightarrow> \<forall>y\<in>set ys. surf_ok y \<Longrightarrow>
     \<forall>y\<in>set ys. surf_inv M N y"
proof (induction ys arbitrary: xs)
  case (Cons y ys)
  then obtain x xs' where "xs = x # xs'" by (cases xs) auto
  with Cons surf_inv_geometry [of M N x y] show ?case by (auto simp: surf_ok_def)
qed simp

lemma geometry_ids: "map geometry ys = map geometry xs \<Longrightarrow> map s_id ys = map s_id xs"
proof -
  assume "map geometry ys = map geometry xs"
  then have "map (\<lambda>(w, h, sc, fl, i). i) (map geometry ys) = map (\<lambda>(w, h, sc, fl, i). i) (map geometry xs)" by simp
  then show ?thesis by (simp add: geometry_def o_def)
qed

lemma inv_display_ok: "inv E M N X s \<Longrightarrow> display_ok E s"
  by (auto simp: inv_def display_ok_def screen_inv_def env_ok_def intro: surf_inv_ok)

lemma inv_redrawn:
  assumes "inv E M N X s" "map geometry surfs = map geometry (surfaces s)" "\<forall>x\<in>set surfs. surf_ok x" "disp_ok d"
  shows "inv E M N X (s\<lparr>surfaces := surfs, disp := d\<rparr>)"
proof -
  have "\<forall>x\<in>set surfs. surf_inv M N x"
    using surfs_inv_geometry [OF _ assms(2,3)] assms(1) by (simp add: inv_def screen_inv_def)
  moreover have ids: "map s_id surfs = map s_id (surfaces s)" using assms(2) by (rule geometry_ids)
  then have "s_id ` set surfs = s_id ` set (surfaces s)" by (metis set_map)
  then have "\<forall>x\<in>set surfs. s_id x < next_id s"
    using assms(1) by (auto simp: inv_def screen_inv_def) (metis imageE imageI)
  ultimately show ?thesis using assms(1,4) ids by (simp add: inv_simps)
qed

lemma damage_state_keeps:
  assumes "inv E M N X s"
  shows "keeps E M N X s (damage_state E s)"
proof -
  obtain surfs d where d: "damage_state E s = Running (s\<lparr>surfaces := surfs, disp := d\<rparr>)"
    "display_ok E (s\<lparr>surfaces := surfs, disp := d\<rparr>)" "map geometry surfs = map geometry (surfaces s)"
    using damage_state_ok [OF inv_display_ok [OF assms]] by blast
  have "inv E M N X (s\<lparr>surfaces := surfs, disp := d\<rparr>)"
    using inv_redrawn [OF assms d(3)] d(2) by (simp add: display_ok_def)
  then show ?thesis using d(1) by (simp add: inv_simps)
qed

lemma damage_state_from:
  "inv E M N X t \<Longrightarrow> grows s t \<Longrightarrow> keeps E M N X s (damage_state E t)"
  by (rule keeps_from [OF _ damage_state_keeps])

section \<open>The timers of the password\<close>

text \<open>The invariant while the password has been changed and its timer is not yet adjusted.\<close>

definition loose :: "env \<Rightarrow> int \<Rightarrow> int \<Rightarrow> nat set \<Rightarrow> dewlock_state \<Rightarrow> bool" where
  "loose E M N X s \<longleftrightarrow> env_ok E \<and> limits_ok M N \<and> timers_inv E X s \<and> (\<exists>cps. pw_repr 1024 (password s) cps) \<and>
     (auth_state s = AUTH_STATE_VALIDATING \<longrightarrow> sb_len (password s) = 0) \<and> screen_inv E M N s \<and> world_inv M N s"

lemma inv_loose: "inv E M N X s \<Longrightarrow> loose E M N X s"
  by (simp add: inv_def pw_inv_def loose_def)

lemma loose_inv:
  "loose E M N X s \<Longrightarrow> sb_len (password s) = 0 \<or> clear_password_timer s \<noteq> None \<Longrightarrow> inv E M N X s"
  by (auto simp: inv_def pw_inv_def loose_def)

lemma schedule_frames:
  "schedule_password_clear E s = s\<lparr>eventloop := eventloop (schedule_password_clear E s),
     clear_password_timer := clear_password_timer (schedule_password_clear E s)\<rparr>"
  "pwd_schedule_auth_idle E s = s\<lparr>eventloop := eventloop (pwd_schedule_auth_idle E s),
     auth_idle_timer := auth_idle_timer (pwd_schedule_auth_idle E s)\<rparr>"
  "clk_schedule_timer E s = s\<lparr>eventloop := eventloop (clk_schedule_timer E s),
     clock_timer := clock_timer (clk_schedule_timer E s)\<rparr>"
  by (simp_all add: schedule_password_clear_def pwd_schedule_auth_idle_def clk_schedule_timer_def
      split: prod.split)

lemma schedule_password_clear_closes:
  assumes "loose E M N X s"
  shows "inv E M N X (schedule_password_clear E s)" "grows s (schedule_password_clear E s)"
proof -
  have T: "timers_inv E X s" using assms by (simp add: loose_def)
  note i = schedule_password_clear_inv [OF T]
  obtain l h where s': "schedule_password_clear E s = s\<lparr>eventloop := l, clear_password_timer := h\<rparr>"
    using schedule_frames by blast
  show "grows s (schedule_password_clear E s)" using i(2) by (simp add: s' grows_def control_def)
  show "inv E M N X (schedule_password_clear E s)"
    using i(1,3) assms by (auto simp: s' inv_simps loose_def)
qed

lemma cancel_password_clear_closes:
  assumes "loose E M N X s" "sb_len (password s) = 0"
  shows "inv E M N X (cancel_password_clear s)" "grows s (cancel_password_clear s)"
proof -
  have T: "timers_inv E X s" using assms by (simp add: loose_def)
  note i = cancel_password_clear_inv [OF T]
  show "grows s (cancel_password_clear s)"
    using i(2) by (simp add: cancel_password_clear_def grows_def control_def)
  show "inv E M N X (cancel_password_clear s)"
    using i(1) assms by (auto simp: cancel_password_clear_def inv_simps loose_def)
qed

lemma schedule_auth_idle_keeps:
  assumes "inv E M N X s"
  shows "inv E M N X (pwd_schedule_auth_idle E s)" "grows s (pwd_schedule_auth_idle E s)"
proof -
  note i = schedule_auth_idle_inv [OF invD(3) [OF assms]]
  obtain l h where s': "pwd_schedule_auth_idle E s = s\<lparr>eventloop := l, auth_idle_timer := h\<rparr>"
    using schedule_frames by blast
  show "grows s (pwd_schedule_auth_idle E s)" using i(2) by (simp add: s' grows_def control_def)
  show "inv E M N X (pwd_schedule_auth_idle E s)" using i(1) assms by (auto simp: s' inv_simps)
qed

lemma clk_schedule_timer_keeps:
  assumes "inv E M N X s"
  shows "inv E M N X (clk_schedule_timer E s)" "grows s (clk_schedule_timer E s)"
proof -
  note i = clk_schedule_timer_inv [OF invD(3) [OF assms]]
  obtain l h where s': "clk_schedule_timer E s = s\<lparr>eventloop := l, clock_timer := h\<rparr>"
    using schedule_frames by blast
  show "grows s (clk_schedule_timer E s)" using i(2) by (simp add: s' grows_def control_def)
  show "inv E M N X (clk_schedule_timer E s)" using i(1) assms by (auto simp: s' inv_simps)
qed

section \<open>The handlers of the password\<close>

lemma loose_password:
  "loose E M N X s \<Longrightarrow> pw_repr 1024 pw cps \<Longrightarrow> (auth_state s = AUTH_STATE_VALIDATING \<Longrightarrow> sb_len pw = 0) \<Longrightarrow>
     loose E M N X (s\<lparr>password := pw\<rparr>)"
  by (auto simp: loose_def screen_inv_def world_inv_def view_ok_def inv_simps)

lemma loose_input_state: "loose E M N X (s\<lparr>input_state := v\<rparr>) = loose E M N X s"
  by (simp add: loose_def screen_inv_def world_inv_def view_ok_def inv_simps)

lemma sbuf_cleared:
  assumes "loose E M N X s"
  obtains pw where "sbuf_clear (password s) = Done pw" "sb_len pw = 0" "loose E M N X (s\<lparr>password := pw\<rparr>)"
proof -
  obtain cps where "pw_repr 1024 (password s) cps" using assms by (auto simp: loose_def)
  from sbuf_clear_repr [OF this] obtain pw where pw: "sbuf_clear (password s) = Done pw" "pw_repr 1024 pw []"
    "sbuf_zeroed pw" by blast
  then have "sb_len pw = 0" by (auto simp: sbuf_zeroed_def split: option.splits)
  with pw that loose_password [OF assms pw(2)] show ?thesis by blast
qed

lemma grows_fields [simp]:
  "grows s (t\<lparr>password := v1\<rparr>) = grows s t" "grows s (t\<lparr>input_state := v2\<rparr>) = grows s t"
  "grows s (t\<lparr>auth_state := v3\<rparr>) = grows s t" "grows s (t\<lparr>xkb := v4\<rparr>) = grows s t"
  "grows s (t\<lparr>disp := v5\<rparr>) = grows s t" "grows s (t\<lparr>surfaces := v6\<rparr>) = grows s t"
  "grows s (t\<lparr>creations := v7\<rparr>) = grows s t" "grows s (t\<lparr>next_id := v8\<rparr>) = grows s t"
  "grows s (t\<lparr>locked := v9\<rparr>) = grows s t" "grows s t \<Longrightarrow> grows s (t\<lparr>compositor := True\<rparr>)"
  "grows s t \<Longrightarrow> grows s (t\<lparr>subcompositor := True\<rparr>)" "grows s (t\<lparr>wl_shm := v9\<rparr>) = grows s t"
  "grows s (t\<lparr>lock_manager := v9\<rparr>) = grows s t" "grows s (t\<lparr>req_pipe := w1\<rparr>) = grows s t"
  "grows s (t\<lparr>writes := w2\<rparr>) = grows s t" "grows s (t\<lparr>failed_attempts := w3\<rparr>) = grows s t"
  "grows s (t\<lparr>time_text := w4\<rparr>) = grows s t" "grows s (t\<lparr>date_text := w4\<rparr>) = grows s t"
  "grows s (t\<lparr>now_calls := w5\<rparr>) = grows s t" "grows s (t\<lparr>auth_idle_timer := w6\<rparr>) = grows s t"
  "grows s (t\<lparr>clear_password_timer := w6\<rparr>) = grows s t" "grows s (t\<lparr>clock_timer := w6\<rparr>) = grows s t"
  by (simp_all add: grows_def control_def)

lemma clear_and_cancel_keeps:
  assumes "loose E M N X s"
  shows "keeps E M N X s (rbind (on_password sbuf_clear s) (\<lambda>t. damage_state E (cancel_password_clear t)))"
proof -
  obtain pw where pw: "sbuf_clear (password s) = Done pw" "sb_len pw = 0" "loose E M N X (s\<lparr>password := pw\<rparr>)"
    by (rule sbuf_cleared [OF assms])
  note c = cancel_password_clear_closes [OF pw(3)]
  then have "grows s (cancel_password_clear (s\<lparr>password := pw\<rparr>))"
    using pw(2) grows_trans [of s "s\<lparr>password := pw\<rparr>"] by simp
  then show ?thesis using pw c by (simp add: on_password_def damage_state_from)
qed

lemma key_erase_keeps:
  assumes I: "inv E M N X s" and A: "auth_state s \<noteq> AUTH_STATE_VALIDATING"
  shows "keeps E M N X s (key_erase E s)"
proof (cases "xkb_control (xkb s)")
  case True
  then show ?thesis using clear_and_cancel_keeps [OF inv_loose [OF I]] by (simp add: key_erase_def)
next
  case False
  obtain cps where r: "pw_repr 1024 (password s) cps" using I by (auto simp: inv_def pw_inv_def)
  obtain pw where pw: "backspace (password s) = Done (cps \<noteq> [], pw)" "pw_repr 1024 pw (butlast cps)"
    using pwbuf.era_repr [OF r] by blast
  let ?s1 = "s\<lparr>password := pw\<rparr>"
  have l: "loose E M N X ?s1" using loose_password [OF inv_loose [OF I] pw(2)] A by simp
  have e: "sb_len pw = 0" if "cps = []" using pw(2) that by (auto simp: pw_repr_iff utf8_text_def)
  let ?s2 = "if cps \<noteq> [] \<and> sb_len pw \<noteq> 0 then schedule_password_clear E ?s1 else cancel_password_clear ?s1"
  have "inv E M N X ?s2 \<and> grows s ?s2"
    using schedule_password_clear_closes [OF l] cancel_password_clear_closes [OF l] e
      grows_trans [of s ?s1] by auto
  then show ?thesis using pw(1) False by (simp add: key_erase_def Let_def damage_state_from)
qed

lemma key_default_keeps:
  assumes I: "inv E M N X s" and A: "auth_state s \<noteq> AUTH_STATE_VALIDATING"
  shows "keeps E M N X s (key_default E cp s)"
proof (cases "cp = 0")
  case True
  then show ?thesis using I by (simp add: key_default_def)
next
  case False
  define s1 where "s1 = (if auth_state s = AUTH_STATE_INVALID then s\<lparr>auth_state := AUTH_STATE_IDLE\<rparr> else s)"
  obtain cps where r: "pw_repr 1024 (password s) cps" using I by (auto simp: inv_def pw_inv_def)
  obtain pw where pw: "append_ch (password s) cp = Done pw"
    "pw_repr 1024 pw (edit_text (pw_room 1024) cps (Type cp))"
    using pwbuf.app_repr [OF r False] by blast
  have s1: "loose E M N X s1" "auth_state s1 \<noteq> AUTH_STATE_VALIDATING" "password s1 = password s" "grows s s1"
    using I A by (auto simp: s1_def inv_def loose_def screen_inv_def world_inv_def view_ok_def pw_inv_def inv_simps)
  let ?s2 = "s1\<lparr>password := pw, input_state := INPUT_STATE_DIRTY\<rparr>"
  have l2: "loose E M N X ?s2" using loose_password [OF s1(1) pw(2)] s1(2) by (simp add: loose_input_state)
  note c = schedule_password_clear_closes [OF l2]
  have "grows s (schedule_password_clear E ?s2)" using s1(4) grows_trans [OF _ c(2), of s] by simp
  with c(1) have "keeps E M N X s (damage_state E (schedule_password_clear E ?s2))"
    by (rule damage_state_from)
  then show ?thesis using False pw(1) s1(3) unfolding key_default_def s1_def [symmetric]
    by (simp add: on_password_def)
qed

lemma submit_password_keeps:
  assumes I: "inv E M N X s"
  shows "keeps E M N X s (submit_password E s)"
proof (cases "auth_state s = AUTH_STATE_VALIDATING")
  case True
  then show ?thesis using I by (simp add: submit_password_def)
next
  case False
  let ?s1 = "s\<lparr>input_state := INPUT_STATE_PRISTINE, auth_state := AUTH_STATE_VALIDATING\<rparr>"
  have T: "timers_inv E X ?s1" using I by (simp add: inv_simps)
  note c = cancel_password_clear_inv [OF T]
  define s2 where "s2 = cancel_input_idle (cancel_password_clear ?s1)"
  have s2: "s2 = cancel_password_clear ?s1"
    using timers_inv_idle [OF c(1)] by (simp add: s2_def cancel_input_idle_noop)
  have f: "s2 = ?s1\<lparr>eventloop := eventloop s2, clear_password_timer := None\<rparr>"
    unfolding s2 by (simp add: cancel_password_clear_def)
  obtain cps where r: "pw_repr 1024 (password s) cps" using I by (auto simp: inv_def pw_inv_def)
  then have wf: "sbuf_wf (password s)" "sb_cap (password s) = 1024" by (simp_all add: pw_repr_def)
  have P: "password s2 = password s" "writes s2 = writes s" "req_pipe s2 = req_pipe s" by (subst f, simp)+
  have G: "grows s s2" using c(2) unfolding s2 [symmetric] by (subst f) (simp add: grows_def control_def)
  show ?thesis
  proof (cases "auth_write_request (writes s) (req_pipe s) (password s)")
    case Fault
    then show ?thesis using auth_write_request_safe [OF wf(1)] by simp
  next
    case Blocked
    then show ?thesis using False P unfolding submit_password_def s2_def [symmetric]
      by (simp add: Let_def s2_def [symmetric] keeps_def)
  next
    case (Done x)
    obtain res pw p ws where x: "x = (res, pw, p, ws)" by (cases x)
    note a = auth_write_request_result [OF Done [unfolded x] wf(1)]
    have z: "sb_len pw = 0" "pw_repr 1024 pw []"
      using a wf(2) by (auto simp: sbuf_zeroed_def pw_repr_def sbuf_text_def split: option.splits)
    let ?s3 = "s2\<lparr>password := pw, req_pipe := p, writes := ws\<rparr>"
    have i3: "inv E M N X ?s3"
    proof -
      have t: "timers_inv E X s2" using c(1) s2 by simp
      have "screen_inv E M N ?s3 \<and> world_inv M N ?s3 \<and> env_ok E \<and> limits_ok M N"
        using I by (subst f, subst f, simp add: inv_simps)
      moreover have "timers_inv E X ?s3" using t by (simp add: inv_simps)
      moreover have "pw_inv E ?s3" using z by (auto simp: pw_inv_def)
      ultimately show ?thesis by (simp add: inv_def)
    qed
    define s4 where "s4 = (if res \<noteq> OK then pwd_schedule_auth_idle E (?s3\<lparr>auth_state := AUTH_STATE_INVALID\<rparr>) else ?s3)"
    have i3': "inv E M N X (?s3\<lparr>auth_state := AUTH_STATE_INVALID\<rparr>)" using i3 z by (simp add: inv_simps)
    have "inv E M N X s4 \<and> grows s s4"
      using i3 schedule_auth_idle_keeps [OF i3'] G
        grows_trans [of s "?s3\<lparr>auth_state := AUTH_STATE_INVALID\<rparr>"] by (auto simp: s4_def)
    then have "keeps E M N X s (damage_state E s4)" by (simp add: damage_state_from)
    then show ?thesis using False Done P x unfolding s4_def submit_password_def
      by (simp add: Let_def s2_def [symmetric])
  qed
qed

lemma pwd_handle_key_keeps:
  assumes I: "inv E M N X s"
  shows "keeps E M N X s (pwd_handle_key E keysym codepoint s)"
proof (cases "auth_state s = AUTH_STATE_VALIDATING")
  case True
  then show ?thesis using I by (simp add: pwd_handle_key_def)
next
  case False
  note l = inv_loose [OF I]
  have esc: "keeps E M N X s (rbind (on_password sbuf_clear s)
      (\<lambda>t. damage_state E (cancel_password_clear (t\<lparr>input_state := INPUT_STATE_PRISTINE\<rparr>))))"
  proof -
    have swap: "t\<lparr>password := x, input_state := v\<rparr> = t\<lparr>input_state := v, password := x\<rparr>" for t x v
      by (simp add: dewlock_state.splits)
    have "rbind (on_password sbuf_clear s)
        (\<lambda>t. damage_state E (cancel_password_clear (t\<lparr>input_state := INPUT_STATE_PRISTINE\<rparr>))) =
      rbind (on_password sbuf_clear (s\<lparr>input_state := INPUT_STATE_PRISTINE\<rparr>))
        (\<lambda>t. damage_state E (cancel_password_clear t))"
      by (cases "sbuf_clear (password s)") (simp_all add: on_password_def swap)
    also have "keeps E M N X s \<dots>"
      using clear_and_cancel_keeps [of E M N X "s\<lparr>input_state := INPUT_STATE_PRISTINE\<rparr>"] l
      by (intro keeps_from [of s "s\<lparr>input_state := INPUT_STATE_PRISTINE\<rparr>"]) (simp_all add: loose_input_state)
    finally show ?thesis .
  qed
  have clr: "keeps E M N X s (rbind (on_password sbuf_clear (s\<lparr>input_state := INPUT_STATE_DIRTY\<rparr>))
      (\<lambda>t. damage_state E (cancel_password_clear t)))"
    using clear_and_cancel_keeps [of E M N X "s\<lparr>input_state := INPUT_STATE_DIRTY\<rparr>"] l
    by (intro keeps_from [of s "s\<lparr>input_state := INPUT_STATE_DIRTY\<rparr>"]) (simp_all add: loose_input_state)
  have mods: "keeps E M N X s (damage_state E (schedule_password_clear E s))"
    using schedule_password_clear_closes [OF l] by (rule damage_state_from)
  show ?thesis
    unfolding pwd_handle_key_def using False
    by (simp add: submit_password_keeps [OF I] key_erase_keeps [OF I False] key_default_keeps [OF I False]
        esc clr mods)
qed

section \<open>The callbacks of timers\<close>

text \<open>What holds when the callback of the timer \<open>a\<close> has run: its cell may be unlinked.\<close>

definition fired_inv :: "env \<Rightarrow> int \<Rightarrow> int \<Rightarrow> nat \<Rightarrow> dewlock_state \<Rightarrow> bool" where
  "fired_inv E M N a s \<longleftrightarrow> inv E M N {} (set_eventloop (unlink a) s)"

lemma inv_set_eventloop:
  "inv E M N X s \<Longrightarrow> timers_inv E Y (set_eventloop f s) \<Longrightarrow> inv E M N Y (set_eventloop f s)"
  by (simp add: inv_simps set_eventloop_def)

lemma inv_fired: "inv E M N {a} s \<Longrightarrow> fired_inv E M N a s"
  unfolding fired_inv_def using timers_inv_unlink [OF invD(3)] inv_set_eventloop by blast

lemma inv_unlink_removed:
  "inv E M N {} s \<Longrightarrow> t \<in> set (timers (eventloop s)) \<Longrightarrow> t_removed t \<Longrightarrow> fired_inv E M N (t_addr t) s"
  unfolding fired_inv_def using timers_inv_unlink_removed [OF invD(3)] inv_set_eventloop by blast

lemma inv_unlink_dead:
  assumes "inv E M N {} s" "a \<in> timer_addrs (eventloop s)" "\<And>c. (a, c) \<notin> live_timers (eventloop s)"
  shows "fired_inv E M N a s"
proof -
  obtain t where t: "t \<in> set (timers (eventloop s))" "t_addr t = a" using assms(2) by (auto simp: timer_addrs_def)
  then have "t_removed t" using assms(3) by (auto simp: live_timers_def)
  then show ?thesis using inv_unlink_removed [OF assms(1) t(1)] t(2) by simp
qed

lemma timers_inv_slot: "timers_inv E {} s \<Longrightarrow> (a, cb) \<in> live_timers (eventloop s) \<Longrightarrow> timer_slot s cb = Some a"
  by (auto simp: timers_inv_def slot_ok_def)

lemma set_auth_idle_fires:
  assumes I: "inv E M N {} s" and L: "(a, SetAuthIdle) \<in> live_timers (eventloop s)"
  shows "keeps E M N {a} s (set_auth_idle E s)"
proof -
  let ?s' = "s\<lparr>auth_idle_timer := None, auth_state := AUTH_STATE_IDLE\<rparr>"
  have "timers_inv E {a} ?s'" using invD(7) [OF I]
    by (intro timers_inv_fired [OF invD(3) [OF I] L]) (simp_all add: timer_slot_def split: timer_cb.split)
  then have "inv E M N {a} ?s'" using I by (simp add: inv_simps)
  then show ?thesis by (simp add: set_auth_idle_def damage_state_from)
qed

lemma clear_password_fires:
  assumes I: "inv E M N {} s" and L: "(a, ClearPassword) \<in> live_timers (eventloop s)"
  shows "keeps E M N {a} s (clear_password E s)"
proof -
  let ?s' = "s\<lparr>clear_password_timer := None, input_state := INPUT_STATE_PRISTINE\<rparr>"
  have "timers_inv E {a} ?s'" using invD(7) [OF I]
    by (intro timers_inv_fired [OF invD(3) [OF I] L]) (simp_all add: timer_slot_def split: timer_cb.split)
  then have "loose E M N {a} ?s'" using I by (simp add: inv_simps loose_def)
  from sbuf_cleared [OF this] obtain pw where pw: "sbuf_clear (password s) = Done pw" "sb_len pw = 0"
    "loose E M N {a} (?s'\<lparr>password := pw\<rparr>)" by auto
  then have "inv E M N {a} (?s'\<lparr>password := pw\<rparr>)" by (intro loose_inv) simp_all
  then show ?thesis using pw(1) by (simp add: clear_password_def on_password_def damage_state_from)
qed

lemma clk_set_time_keeps:
  assumes "inv E M N X s"
  shows "inv E M N X (clk_set_time E s)" "grows s (clk_set_time E s)"
  using assms by (simp_all add: clk_set_time_def Let_def inv_simps)

text \<open>
  The clock schedules its next tick before the handle of the one that fired is cleared, so the
  fired timer is marked as removed.
\<close>

lemma set_time_fires:
  assumes I: "inv E M N {} s" and L: "(a, SetTime) \<in> live_timers (eventloop s)"
  shows "run_all (\<lambda>s'. fired_inv E M N a s' \<and> loop_ok (ev_loop E) (eventloop s') \<and> grows s s') (fin (session_lock s)) (set_time E s)"
proof -
  note t = clk_set_time_keeps [OF I]
  have "keeps E M N {} s (damage_state E (clk_set_time E s))" using t by (rule damage_state_from)
  moreover obtain s1 where s1: "damage_state E (clk_set_time E s) = Running s1"
    using damage_state_ok [OF inv_display_ok [OF t(1)]] by blast
  ultimately have i1: "inv E M N {} s1" "grows s s1" by simp_all
  define u d where "u = surfaces s1" and "d = disp s1"
  have "s1 = (clk_set_time E s)\<lparr>surfaces := u, disp := d\<rparr>"
    unfolding u_def d_def using s1 by (rule damage_state_frame)
  then have f: "eventloop s1 = eventloop s" "clock_timer s1 = clock_timer s"
    by (simp_all only:) (simp_all add: clk_set_time_def Let_def)
  have h: "clock_timer s = Some a" using timers_inv_slot [OF invD(3) [OF I] L] by (simp add: timer_slot_def)
  let ?s2 = "clk_schedule_timer E s1"
  note c = clk_schedule_timer_keeps [OF i1(1)]
  have ok: "loop_ok (ev_loop E) (eventloop s)" using invD(3) [OF I] by (simp add: timers_inv_def)
  have a: "a \<in> timer_addrs (eventloop s)" using L by (rule loop_timers.live_addrs)
  have "(a, cb) \<notin> live_timers (eventloop ?s2)" for cb
  proof -
    obtain h' l where r: "timer_rearm (loop_add_timer (ev_loop E)) loop_remove_timer (eventloop s) (Some a) 1000 SetTime
        = (h', l)" by fastforce
    then have "eventloop ?s2 = l" using f h by (simp add: clk_schedule_timer_def)
    then show ?thesis using loop_timers.rearm_drops [OF ok a r] by simp
  qed
  moreover have "a \<in> timer_addrs (eventloop ?s2)"
    using a f(1) c(2) loop_grows_addrs by (auto simp: grows_def)
  ultimately have "fired_inv E M N a ?s2" using c(1) by (intro inv_unlink_dead)
  moreover have "loop_ok (ev_loop E) (eventloop ?s2)" using invD(3) [OF c(1)] by (simp add: timers_inv_def)
  ultimately show ?thesis using grows_trans [OF i1(2) c(2)] s1 by (simp add: set_time_def)
qed

lemma inv_upd_seat:
  "inv E M N X s \<Longrightarrow> i < length (seats s) \<Longrightarrow> repeat_timer (f (seats s ! i)) = repeat_timer (seats s ! i) \<Longrightarrow>
     inv E M N X (upd_seat i f s) \<and> grows s (upd_seat i f s)"
proof -
  assume I: "inv E M N X s" and i: "i < length (seats s)" and f: "repeat_timer (f (seats s ! i)) = repeat_timer (seats s ! i)"
  have "timer_slot (upd_seat i f s) cb = timer_slot s cb" for cb
    using i f by (simp add: timer_slot_def upd_seat_def nth_list_update split: timer_cb.split)
  then have "timers_inv E X (upd_seat i f s)"
    using invD(3) [OF I] by (intro timers_inv_cong [OF invD(3) [OF I]]) (simp_all add: upd_seat_def)
  then show ?thesis using I by (simp add: inv_simps upd_seat_def)
qed

lemma stop_repeat_keeps:
  assumes "inv E M N X s" "i < length (seats s)"
  shows "inv E M N X (stop_repeat i s)" "grows s (stop_repeat i s)"
  using stop_repeat_inv(1,2) [OF invD(3) [OF assms(1)] assms(2)] assms(1)
  by (simp_all add: stop_repeat_def upd_seat_def inv_simps)

lemma start_repeat_frame:
  "start_repeat E i ms s = s\<lparr>eventloop := eventloop (start_repeat E i ms s), seats := seats (start_repeat E i ms s)\<rparr>"
  "length (seats (start_repeat E i ms s)) = length (seats s)"
  by (simp_all add: start_repeat_def upd_seat_def split: prod.split)

lemma start_repeat_keeps:
  assumes "inv E M N X s" "timers_inv E Y s" "i < length (seats s)" "timer_slot s (KeyboardRepeat i) = None"
  shows "inv E M N Y (start_repeat E i ms s)" "grows s (start_repeat E i ms s)"
proof -
  note r = start_repeat_inv [OF assms(2-4), of ms]
  define l ss where "l = eventloop (start_repeat E i ms s)" and "ss = seats (start_repeat E i ms s)"
  then have f: "start_repeat E i ms s = s\<lparr>eventloop := l, seats := ss\<rparr>" "length ss = length (seats s)"
    using start_repeat_frame by metis+
  show "inv E M N Y (start_repeat E i ms s)" "grows s (start_repeat E i ms s)"
    using r assms(1) f(2) unfolding f(1) by (simp_all add: inv_simps)
qed

lemma keyboard_repeat_fires:
  assumes I: "inv E M N {} s" and L: "(a, KeyboardRepeat i) \<in> live_timers (eventloop s)"
  shows "keeps E M N {a} s (keyboard_repeat E i s)"
proof -
  let ?s0 = "upd_seat i (\<lambda>seat. seat\<lparr>repeat_timer := None\<rparr>) s"
  have "timer_slot s (KeyboardRepeat i) = Some a" using timers_inv_slot [OF invD(3) [OF I] L] .
  then have i: "i < length (seats s)" by (auto simp: timer_slot_def split: if_splits)
  have t: "timers_inv E {a} ?s0" using invD(7) [OF I] i
    by (intro timers_inv_fired [OF invD(3) [OF I] L])
      (simp_all add: timer_slot_def upd_seat_def nth_list_update split: timer_cb.split)
  have 1: "inv E M N {a} ?s0" using I t by (simp add: inv_simps upd_seat_def)
  have 2: "timer_slot ?s0 (KeyboardRepeat i) = None" "i < length (seats ?s0)" "grows s ?s0"
    using i by (simp_all add: timer_slot_def upd_seat_def grows_def control_def)
  have eq: "start_repeat E i ms s = start_repeat E i ms ?s0" for ms
    using i by (simp add: start_repeat_def upd_seat_def split: prod.split)
  note k = start_repeat_keeps [OF 1 t 2(2,1)]
  have "inv E M N {a} (start_repeat E i ms s)" "grows s (start_repeat E i ms s)" for ms
    unfolding eq using k(1) grows_trans [OF 2(3) k(2)] by blast+
  then show ?thesis unfolding keyboard_repeat_def Let_def
    by (rule keeps_from [OF _ pwd_handle_key_keeps, rotated])
qed

section \<open>The handlers of the seat\<close>

lemma restart_repeat_keeps:
  assumes I: "inv E M N X t" and i: "i < length (seats t)"
  shows "keeps E M N X t (let s2 = stop_repeat i t in
      if pressed \<and> repeat_period_ms (seats s2 ! i) > 0
      then Running (start_repeat E i (repeat_delay_ms (seats s2 ! i))
             (upd_seat i (\<lambda>seat. seat\<lparr>repeat_sym := ks, repeat_codepoint := cp\<rparr>) s2))
      else Running s2)"
proof -
  let ?s2 = "stop_repeat i t"
  let ?s3 = "upd_seat i (\<lambda>seat. seat\<lparr>repeat_sym := ks, repeat_codepoint := cp\<rparr>) ?s2"
  note 2 = stop_repeat_keeps [OF I i]
  have i2: "i < length (seats ?s2)" using i by (simp add: stop_repeat_def upd_seat_def)
  have 3: "inv E M N X ?s3 \<and> grows ?s2 ?s3" using 2(1) i2 by (intro inv_upd_seat) simp_all
  then have g3: "grows t ?s3" using 2(2) grows_trans by blast
  have "timer_slot ?s3 (KeyboardRepeat i) = None"
    using i2 i by (simp add: timer_slot_def upd_seat_def stop_repeat_def)
  moreover have "i < length (seats ?s3)" using i2 by (simp add: upd_seat_def)
  ultimately have "inv E M N X (start_repeat E i ms ?s3) \<and> grows t (start_repeat E i ms ?s3)" for ms
    using start_repeat_keeps [OF conjunct1 [OF 3] invD(3) [OF conjunct1 [OF 3]], of i ms] grows_trans [OF g3]
    by blast
  then show ?thesis using 2 by (simp add: Let_def)
qed

lemma keyboard_key_keeps:
  assumes I: "inv E M N X s" and i: "i < length (seats s)"
  shows "keeps E M N X s (keyboard_key E i key pressed s)"
proof (cases "xkb_state (xkb s)")
  case None
  then show ?thesis using I by (simp add: keyboard_key_def)
next
  case (Some st)
  have "keeps E M N X s (rbind (if pressed then pwd_handle_key E ks cp s else Running s)
      (\<lambda>t. let s2 = stop_repeat i t in
        if pressed \<and> repeat_period_ms (seats s2 ! i) > 0
        then Running (start_repeat E i (repeat_delay_ms (seats s2 ! i))
               (upd_seat i (\<lambda>seat. seat\<lparr>repeat_sym := ks, repeat_codepoint := cp\<rparr>) s2))
        else Running s2))" for ks cp
  proof (rule keeps_rbind)
    show "keeps E M N X s (if pressed then pwd_handle_key E ks cp s else Running s)"
      using pwd_handle_key_keeps [OF I] I by simp
    fix t
    assume t: "inv E M N X t" "grows s t"
    then have "i < length (seats t)" using i by (simp add: grows_def)
    with t(1) show "keeps E M N X t (let s2 = stop_repeat i t in
        if pressed \<and> repeat_period_ms (seats s2 ! i) > 0
        then Running (start_repeat E i (repeat_delay_ms (seats s2 ! i))
               (upd_seat i (\<lambda>seat. seat\<lparr>repeat_sym := ks, repeat_codepoint := cp\<rparr>) s2))
        else Running s2)" by (rule restart_repeat_keeps)
  qed
  then show ?thesis unfolding keyboard_key_def Some option.case Let_def [of "xe_get_one_sym _ _ _"]
      Let_def [of "xe_get_utf32 _ _ _"] Let_def [of "if pressed then _ else _"] by blast
qed

lemma keyboard_modifiers_keeps:
  assumes I: "inv E M N X s"
  shows "keeps E M N X s (keyboard_modifiers E depressed latched lck grp s)"
proof (cases "xkb_state (xkb s)")
  case None
  then show ?thesis using I by (simp add: keyboard_modifiers_def)
next
  case (Some st)
  have xkb: "inv E M N X (t\<lparr>xkb := x\<rparr>)" if "inv E M N X t" for t x
    using that by (simp add: inv_simps)
  show ?thesis using Some unfolding keyboard_modifiers_def
    by (auto simp: Let_def intro!: keeps_rbind' damage_state_from xkb I)
qed

lemma keyboard_keymap_keeps:
  assumes "inv E M N X s"
  shows "keeps E M N X s (keyboard_keymap E format m s)"
proof -
  have xkb: "inv E M N X (s\<lparr>xkb := x\<rparr>)" for x using assms by (simp add: inv_simps)
  have "keeps E M N X s (Exited 1 s)" using assms by (simp add: keeps_def fin_def inv_simps)
  with xkb show ?thesis
    by (simp add: keyboard_keymap_def split: keymap_format.split option.split)
qed

lemma seat_handlers_keep:
  assumes "inv E M N X s" "i < length (seats s)"
  shows "keeps E M N X s (keyboard_leave i s)" "keeps E M N X s (keyboard_enter i s)"
    "keeps E M N X s (seat_handle_name i s)" "keeps E M N X s (keyboard_repeat_info i rate delay s)"
    "keeps E M N X s (seat_handle_capabilities i p k s)" "keeps E M N X s (pointer_handler i e s)"
  using stop_repeat_keeps [OF assms] inv_upd_seat [OF assms] assms(1)
  by (auto simp: keyboard_leave_def keyboard_enter_def seat_handle_name_def keyboard_repeat_info_def
      seat_handle_capabilities_def pointer_handler_def split: pointer_event.split)

end
