(* ===== verification/Handlers.thy ===== *)
theory Handlers
  imports Invariants
begin

text \<open>
  The handlers of surfaces, globals and events keep the invariant, and so do the callbacks of the
  event loop: the program meets the contract \<open>loop_client\<close> of the loop (\<open>dewlock\<close>).
\<close>

section \<open>The handlers of surfaces and globals\<close>

lemma put_surface_inv:
  assumes "inv E M N X s" "surf_inv M N surf"
  shows "inv E M N X (put_surface surf s)" "grows s (put_surface surf s)"
proof -
  have "map s_id (map (\<lambda>x. if s_id x = s_id surf then surf else x) (surfaces s)) = map s_id (surfaces s)" by auto
  moreover have "\<forall>x\<in>set (surfaces s). surf_inv M N x" "\<forall>x\<in>set (surfaces s). s_id x < next_id s"
    using assms(1) by (simp_all add: inv_simps)
  ultimately show "inv E M N X (put_surface surf s)"
    using assms by (auto simp: put_surface_def inv_simps simp del: map_map)
  show "grows s (put_surface surf s)" by (simp add: put_surface_def)
qed

lemma find_surface_in: "find_surface sid s = Some surf \<Longrightarrow> surf \<in> set (surfaces s) \<and> s_id surf = sid"
  by (auto simp: find_surface_def find_Some_iff)

lemma find_surface_inv: "inv E M N X s \<Longrightarrow> find_surface sid s = Some surf \<Longrightarrow> surf_inv M N surf"
  using find_surface_in [of sid s surf] by (auto simp: inv_simps)

lemma rendered_keeps:
  assumes I: "inv E M N X s" and x: "surf_inv M N surf"
  shows "\<exists>surf' d. rnd_handle_render E s surf (disp s) = Done (surf', d) \<and>
    keeps E M N X s (Running ((put_surface surf' s)\<lparr>disp := d\<rparr>))"
proof -
  have R: "render_ok E s" "disp_ok (disp s)" using I by (auto simp: inv_simps render_ok_def env_ok_def)
  obtain surf' d where r: "rnd_handle_render E s surf (disp s) = Done (surf', d)" "surf_ok surf'"
    "geometry surf' = geometry surf" "disp_ok d"
    using rnd_handle_render_ok [OF R(1) surf_inv_ok [OF invD(2) [OF I] x] R(2)] by blast
  have "surf_inv M N surf'" using surf_inv_geometry [OF x r(3)] r(2) by (simp add: surf_ok_def)
  from put_surface_inv [OF I this] r(1,4) show ?thesis by (auto simp: inv_simps)
qed

lemma render_surface_keeps:
  "inv E M N X s \<Longrightarrow> surf_inv M N surf \<Longrightarrow> keeps E M N X s (render_surface E surf s)"
  using rendered_keeps [of E M N X s surf] by (auto simp: render_surface_def)

lemma surf_inv_fields [simp]:
  "surf_inv M N (x\<lparr>s_dirty := v1\<rparr>) = surf_inv M N x" "surf_inv M N (x\<lparr>s_frame := v1\<rparr>) = surf_inv M N x"
  "surf_inv M N (x\<lparr>s_subpixel := v2\<rparr>) = surf_inv M N x" "surf_inv M N (x\<lparr>s_output_name := v3\<rparr>) = surf_inv M N x"
  "surf_inv M N (x\<lparr>s_image := v4\<rparr>) = surf_inv M N x" "surf_inv M N (x\<lparr>s_opaque_region := v1\<rparr>) = surf_inv M N x"
  "surf_inv M N (x\<lparr>s_created := v1\<rparr>) = surf_inv M N x"
  by (simp_all add: surf_inv_def)

lemma buffer_release_ok:
  assumes "pool_ok pool" "k < length pool"
  shows "pool_ok (pool[k := buffer_release (pool ! k)])"
proof -
  have "ctx_ok (buffer_release ctx) = ctx_ok ctx" for ctx
    by (simp add: ctx_ok_def buffer_release_def ctx_drawable_def split: mapping.split)
  moreover have "ctx_ok (pool ! k)" using assms by (simp add: pool_ok_def)
  ultimately have "ctx_ok (buffer_release (pool ! k))" by blast
  then show ?thesis using assms by (auto simp: pool_ok_def dest!: set_update_subset_insert [THEN subsetD])
qed

lemma create_surface_keeps:
  assumes I: "inv E M N X s" and x: "surf_inv M N surf"
    and w: "compositor s" "subcompositor s" "session_lock s = LockRequested"
  shows "keeps E M N X s (create_surface E surf s)"
proof -
  have e: "ev_create E n" for n using I by (simp add: inv_def env_ok_def)
  have c: "inv E M N X (s\<lparr>creations := n\<rparr>)" "grows s (s\<lparr>creations := n\<rparr>)" for n using I by (simp_all add: inv_simps)
  have "surf_inv M N (surf\<lparr>s_image := v1, s_surface := True, s_child := True, s_subsurface := True,
      s_lock_surface := True\<rparr>)" for v1
    using x by (simp add: surf_inv_def)
  moreover have "inv E M N X (put_surface y (s\<lparr>creations := n\<rparr>)) \<and> grows s (put_surface y (s\<lparr>creations := n\<rparr>))"
    if "surf_inv M N y" for y n
    using put_surface_inv [OF c(1) that] grows_trans [OF c(2)] by blast
  ultimately show ?thesis by (simp add: create_surface_def e w Let_def)
qed

lemma surface_handlers_keep:
  assumes I: "inv E M N X s" and x: "surf_inv M N surf"
  shows "keeps E M N X s (handle_wl_output_geometry E subpixel surf s)"
    "keeps E M N X s (handle_wl_output_done E surf s)"
    "0 \<le> f \<Longrightarrow> f \<le> N \<Longrightarrow> keeps E M N X s (handle_wl_output_scale E f surf s)"
    "keeps E M N X s (handle_wl_output_name name surf s)"
    "0 \<le> sint w \<Longrightarrow> sint w \<le> M \<Longrightarrow> 0 \<le> sint h \<Longrightarrow> sint h \<le> M \<Longrightarrow> s_lock_surface surf \<Longrightarrow>
       keeps E M N X s (handle_configure E w h surf s)"
    "keeps E M N X s (handle_frame_done E surf s)"
    "k < length (s_buffers surf) \<Longrightarrow> keeps E M N X s (handle_buffer_release k surf s)"
proof -
  have s: "surf_inv M N (surf\<lparr>s_scale := f\<rparr>)" if "0 \<le> f" "f \<le> N" using x that by (simp add: surf_inv_def)
  have wh: "surf_inv M N (surf\<lparr>s_width := w, s_height := h\<rparr>)"
    if "0 \<le> sint w" "sint w \<le> M" "0 \<le> sint h" "sint h \<le> M" "s_lock_surface surf"
    using x that by (simp add: surf_inv_def)
  have b: "surf_inv M N (surf\<lparr>s_buffers := (s_buffers surf)[k := buffer_release (s_buffers surf ! k)]\<rparr>)"
    if "k < length (s_buffers surf)"
    using x that buffer_release_ok by (simp add: surf_inv_def)
  note p = render_surface_keeps [OF I] put_surface_inv [OF I]
  show "keeps E M N X s (handle_wl_output_geometry E subpixel surf s)"
    "0 \<le> f \<Longrightarrow> f \<le> N \<Longrightarrow> keeps E M N X s (handle_wl_output_scale E f surf s)"
    "keeps E M N X s (handle_wl_output_name name surf s)"
    "k < length (s_buffers surf) \<Longrightarrow> keeps E M N X s (handle_buffer_release k surf s)"
    "keeps E M N X s (handle_wl_output_done E surf s)"
    using x s b p create_surface_keeps [OF I x] I invD(6) [OF I]
    by (simp_all add: world_inv_def handle_wl_output_geometry_def handle_wl_output_scale_def handle_wl_output_name_def
        handle_buffer_release_def handle_wl_output_done_def Let_def)
  show "keeps E M N X s (handle_configure E w h surf s)"
    if "0 \<le> sint w" "sint w \<le> M" "0 \<le> sint h" "sint h \<le> M" "s_lock_surface surf"
    using render_surface_keeps [OF I, of "surf\<lparr>s_width := w, s_height := h, s_dirty := True\<rparr>"] wh [OF that]
    by (simp add: handle_configure_def)
  show "keeps E M N X s (handle_frame_done E surf s)"
    using rendered_keeps [OF I, of "surf\<lparr>s_frame := False\<rparr>"] x
    by (auto simp: handle_frame_done_def surface_frame_handle_done_def)
qed

lemma surface_zero_inv: "limits_ok M N \<Longrightarrow> surf_inv M N (surface_zero\<lparr>s_id := i, s_output_global_name := n\<rparr>)"
  by (simp add: surf_inv_def surface_zero_def limits_ok_def pool_ok_def ctx_ok_def ctx_zero_def)

lemma handle_global_keeps:
  assumes I: "inv E M N X s"
  shows "keeps E M N X s (handle_global E name interface s)"
proof -
  have a: "ev_alloc E n" for n using I by (simp add: inv_def env_ok_def)
  let ?seat = "s\<lparr>seats := seats s @ [seat_zero], next_id := next_id s + 1\<rparr>"
  have "timer_slot ?seat cb = timer_slot s cb" for cb
    by (auto simp: timer_slot_def nth_append seat_zero_def split: timer_cb.split)
  then have "timers_inv E X ?seat" by (intro timers_inv_cong [OF invD(3) [OF I]]) simp_all
  then have seat: "inv E M N X ?seat" "grows s ?seat" using I by (auto simp: inv_simps)
  let ?out = "s\<lparr>surfaces := surface_zero\<lparr>s_id := next_id s, s_output_global_name := name\<rparr> # surfaces s,
      next_id := next_id s + 1\<rparr>"
  have out: "inv E M N X ?out" using I surface_zero_inv [OF invD(2) [OF I]]
    by (auto simp: inv_simps)
  have flags: "inv E M N X (s\<lparr>compositor := True\<rparr>)" "inv E M N X (s\<lparr>subcompositor := True\<rparr>)"
    "inv E M N X (s\<lparr>wl_shm := True\<rparr>)" "inv E M N X (s\<lparr>lock_manager := True\<rparr>)" using I by (simp_all add: inv_simps)
  show ?thesis using I seat out flags by (simp add: handle_global_def a)
qed

lemma destroy_surface_keeps:
  assumes "inv E M N X s"
  shows "inv E M N X (destroy_surface surf s)" "grows s (destroy_surface surf s)"
proof -
  obtain g where f: "destroy_surface surf s =
      s\<lparr>surfaces := filter (\<lambda>x. s_id x \<noteq> s_id surf) (surfaces s), disp := (disp s)\<lparr>d_gfx := g\<rparr>\<rparr>"
    by (cases "ctx_deinit (d_gfx (disp s)) (s_buffers surf)") (simp add: destroy_surface_def)
  show "inv E M N X (destroy_surface surf s)" "grows s (destroy_surface surf s)"
    using assms unfolding f by (simp_all add: inv_simps disp_ok_def distinct_map_filter)
qed

lemma on_surface_keeps:
  "inv E M N X s \<Longrightarrow> (\<And>surf. surf_inv M N surf \<Longrightarrow> keeps E M N X s (f surf s)) \<Longrightarrow> keeps E M N X s (on_surface sid f s)"
  by (auto simp: on_surface_def find_surface_inv split: option.split)

lemma on_seat_keeps:
  "inv E M N X s \<Longrightarrow> (i < length (seats s) \<Longrightarrow> keeps E M N X s (f s)) \<Longrightarrow> keeps E M N X s (on_seat i P f s)"
  by (simp add: on_seat_def)

lemma handle_event_keeps:
  assumes I: "inv E M N X s" and e: "event_ok M N e"
  shows "keeps E M N X s (handle_event E e s)"
proof -
  note surf = on_surface_keeps [OF I] and seat = on_seat_keeps [OF I] and here = surface_handlers_keep [OF I]
  show ?thesis
  proof (cases e)
    case (GlobalRemove name)
    then show ?thesis using I destroy_surface_keeps [OF I]
      by (simp add: handle_event_def handle_global_remove_def split: option.split)
  next
    case Locked
    then show ?thesis using I by (simp add: handle_event_def handle_locked_def inv_simps)
  next
    case Finished
    then show ?thesis using I by (simp add: handle_event_def handle_finished_def keeps_def fin_def inv_simps)
  next
    case (Keymap i format m)
    then show ?thesis using seat keyboard_keymap_keeps [OF I] by (simp add: handle_event_def)
  next
    case (Key i key pressed)
    then show ?thesis using seat keyboard_key_keeps [OF I] by (simp add: handle_event_def)
  next
    case (Modifiers i d l k grp)
    then show ?thesis using seat keyboard_modifiers_keeps [OF I] by (simp add: handle_event_def)
  qed (use e I in \<open>auto simp: handle_event_def event_ok_def handle_global_keeps handle_wl_output_mode_def
      handle_wl_output_description_def intro!: surf seat seat_handlers_keep here\<close>)
qed

lemma handle_events_keep:
  "inv E M N X s \<Longrightarrow> list_all (event_ok M N) es \<Longrightarrow> keeps E M N X s (handle_events E es s)"
proof (induction es arbitrary: s)
  case (Cons e es)
  then show ?case by (auto intro!: keeps_rbind' handle_event_keeps)
qed simp

section \<open>The callbacks of descriptors\<close>

lemma inv_inbox: "inv E M N X s \<Longrightarrow> inbox s = b # rest \<Longrightarrow> inv E M N X (s\<lparr>inbox := rest\<rparr>)"
  by (auto simp: inv_simps inbox_ok_def)

text \<open>A batch of events is handled with the rest of the control state as it is.\<close>

lemma dispatch_batch_keeps:
  assumes "inv E M N X s" "inbox s = Some es # rest"
  shows "keeps E M N X (s\<lparr>inbox := rest\<rparr>) (display_dispatch E failed s)"
proof -
  have "list_all (event_ok M N) es" using assms by (simp add: inv_simps inbox_ok_def)
  then show ?thesis using handle_events_keep [OF inv_inbox [OF assms]] assms(2) by (simp add: display_dispatch_def)
qed

definition callback_ok :: "env \<Rightarrow> int \<Rightarrow> int \<Rightarrow> dewlock_state \<Rightarrow> dewlock_state run \<Rightarrow> bool" where
  "callback_ok E M N s m \<longleftrightarrow>
     run_all (\<lambda>s'. inv E M N {} s' \<and> loop_grows (eventloop s) (eventloop s') \<and> length (seats s) \<le> length (seats s') \<and>
                    session_lock s' = session_lock s) (fin (session_lock s)) m"

lemma keeps_callback:
  "keeps E M N {} t m \<Longrightarrow> eventloop t = eventloop s \<Longrightarrow> seats t = seats s \<Longrightarrow> session_lock t = session_lock s \<Longrightarrow>
     callback_ok E M N s m"
  unfolding keeps_def callback_ok_def by (erule run_all_mono) (auto simp: grows_def control_def)

lemma display_in_ok:
  assumes I: "inv E M N {} s"
  shows "callback_ok E M N s (display_in E s)"
proof (cases "inbox s")
  case Nil
  then show ?thesis by (simp add: callback_ok_def display_in_def display_dispatch_def)
next
  case (Cons b rest)
  show ?thesis
  proof (cases b)
    case None
    have "inv E M N {} (s\<lparr>inbox := rest, run_display := False\<rparr>)"
      using inv_inbox [OF I Cons] by (simp add: inv_simps)
    then show ?thesis using Cons None by (simp add: callback_ok_def display_in_def display_dispatch_def)
  next
    case (Some es)
    show ?thesis unfolding display_in_def
      by (rule keeps_callback [OF dispatch_batch_keeps [OF I Cons [unfolded Some]]]) simp_all
  qed
qed

text \<open>What a reply does, by its verdict.\<close>

definition verdict_stored :: "dewlock_state \<Rightarrow> pipe_t \<Rightarrow> read_event list \<Rightarrow> dewlock_state" where
  "verdict_stored s p rs = s\<lparr>rep_pipe := p, reads := rs\<rparr>"

lemma inv_verdict_stored: "inv E M N X s \<Longrightarrow> inv E M N X (verdict_stored s p rs)"
  by (simp add: verdict_stored_def inv_simps)

lemma rejected_keeps:
  assumes I: "inv E M N {} s"
  shows "keeps E M N {} s (damage_state E
     ((pwd_schedule_auth_idle E (s\<lparr>auth_state := AUTH_STATE_INVALID\<rparr>))\<lparr>failed_attempts := n\<rparr>))"
proof -
  have i: "inv E M N {} (s\<lparr>auth_state := AUTH_STATE_INVALID\<rparr>)" using I by (simp add: inv_simps)
  note k = schedule_auth_idle_keeps [OF i]
  have "inv E M N {} ((pwd_schedule_auth_idle E (s\<lparr>auth_state := AUTH_STATE_INVALID\<rparr>))\<lparr>failed_attempts := n\<rparr>)"
    using k(1) by (simp add: inv_simps)
  moreover have "grows s (pwd_schedule_auth_idle E (s\<lparr>auth_state := AUTH_STATE_INVALID\<rparr>))"
    using grows_trans [OF _ k(2), of s] by simp
  ultimately show ?thesis by (intro damage_state_from) simp_all
qed

lemma reply_in_ok:
  assumes I: "inv E M N {} s"
  shows "callback_ok E M N s (reply_in E m s)"
proof (cases "m AND POLLIN = 0")
  case True
  then show ?thesis using I by (simp add: reply_in_def callback_ok_def fin_def inv_simps)
next
  case False
  show ?thesis
  proof (cases "auth_read_reply (reads s) (rep_pipe s) False")
    case (Done x)
    obtain res ok p rs where x: "x = (res, ok, p, rs)" by (cases x)
    let ?s1 = "s\<lparr>rep_pipe := p, reads := rs\<rparr>"
    have i1: "inv E M N {} ?s1" using inv_verdict_stored [OF I] by (simp add: verdict_stored_def)
    then have stop: "inv E M N {} (?s1\<lparr>run_display := False\<rparr>)"
      by (simp add: inv_simps)
    have "callback_ok E M N s (damage_state E
        ((pwd_schedule_auth_idle E (?s1\<lparr>auth_state := AUTH_STATE_INVALID\<rparr>))\<lparr>failed_attempts := failed_attempts s + 1\<rparr>))"
      by (rule keeps_callback [OF rejected_keeps [OF i1]]) simp_all
    then show ?thesis using False Done x stop
      by (auto simp: reply_in_def Let_def callback_ok_def fin_def)
  qed (use False auth_read_reply_safe in \<open>auto simp: reply_in_def callback_ok_def\<close>)
qed

lemma run_fd_ok:
  assumes "inv E M N {} s"
  shows "callback_ok E M N s (run_fd E k fd m s)"
  using display_in_ok [OF assms] reply_in_ok [OF assms] assms
  by (cases k) (simp_all add: run_fd_def term_in_def callback_ok_def inv_simps)

lemma run_timer_ok:
  assumes I: "inv E M N {} s" and L: "(a, cb) \<in> live_timers (eventloop s)"
  shows "run_all (\<lambda>s'. fired_inv E M N a s' \<and> loop_ok (ev_loop E) (eventloop s') \<and> grows s s') (fin (session_lock s)) (run_timer E cb s)"
proof -
  have k: "run_all (\<lambda>s'. fired_inv E M N a s' \<and> loop_ok (ev_loop E) (eventloop s') \<and> grows s s') (fin (session_lock s)) m"
    if "keeps E M N {a} s m" for m
    using that unfolding keeps_def
    by (rule run_all_mono) (auto simp: inv_fired dest: invD(3) [unfolded timers_inv_def])
  show ?thesis using set_time_fires [OF I] set_auth_idle_fires [OF I] clear_password_fires [OF I]
      keyboard_repeat_fires [OF I] L k
    by (cases cb) (simp_all add: run_timer_def)
qed

lemma inv_table:
  assumes I: "inv E M N X s" and f: "timers (f (eventloop s)) = timers (eventloop s)"
    "loop_wf (eventloop s) \<Longrightarrow> loop_wf (f (eventloop s))"
  shows "inv E M N X (set_eventloop f s)"
proof (rule inv_set_eventloop [OF I])
  have "timer_slot (set_eventloop f s) cb = timer_slot s cb" for cb
    by (simp add: timer_slot_def set_eventloop_def split: timer_cb.split)
  then show "timers_inv E X (set_eventloop f s)" using invD(3) [OF I] f
    by (simp add: timers_inv_def loop_ok_def live_timers_def timer_addrs_def set_eventloop_def)
qed

section \<open>The program meets the contract of the event loop\<close>

interpretation dewlock: loop_client eventloop set_eventloop "run_fd E" "run_timer E"
  "\<lambda>s. inv E M N {} s \<and> session_lock s = L" "\<lambda>a s. fired_inv E M N a s \<and> session_lock s = L" "fin L" "\<lambda>_. True"
  for E M N L
proof unfold_locales
  show "eventloop (set_eventloop f s) = f (eventloop s)" for f s by (simp add: set_eventloop_def)
  show "set_eventloop (\<lambda>_. f (eventloop s)) s = set_eventloop f s" for f s by (simp add: set_eventloop_def)
  show wf: "inv E M N {} s \<and> session_lock s = L \<Longrightarrow> loop_wf (eventloop s)" for s
    by (simp add: inv_def timers_inv_def loop_ok_def)
  show "run_all (\<lambda>s'. (fired_inv E M N (t_addr t) s' \<and> session_lock s' = L) \<and> loop_wf (eventloop s') \<and>
      (\<exists>new. timer_list (eventloop s') = new @ timer_list (eventloop s))) (fin L) (run_timer E (t_callback t) s)"
    if "inv E M N {} s \<and> session_lock s = L" "t \<in> set (timers (eventloop s))" "\<not> t_removed t" for s t
  proof -
    have "(t_addr t, t_callback t) \<in> live_timers (eventloop s)" using that(2,3) by (auto simp: live_timers_def)
    from run_timer_ok [OF conjunct1 [OF that(1)] this] show ?thesis
      by (rule run_all_mono) (use that in \<open>auto simp: grows_def loop_grows_def loop_ok_def control_def\<close>)
  qed
  show "fired_inv E M N a s \<and> session_lock s = L \<Longrightarrow>
      inv E M N {} (set_eventloop (unlink a) s) \<and> session_lock (set_eventloop (unlink a) s) = L" for a s
    by (simp add: fired_inv_def set_eventloop_def)
  show "inv E M N {} s \<and> session_lock s = L \<Longrightarrow> t \<in> set (timers (eventloop s)) \<Longrightarrow> t_removed t \<Longrightarrow>
      inv E M N {} (set_eventloop (unlink (t_addr t)) s) \<and> session_lock (set_eventloop (unlink (t_addr t)) s) = L"
    for s t
    using inv_unlink_removed by (simp add: fired_inv_def set_eventloop_def)
  show "inv E M N {} s \<and> session_lock s = L \<Longrightarrow> inv E M N {} (set_eventloop (\<lambda>l. l\<lparr>calls := n\<rparr>) s) \<and>
      session_lock (set_eventloop (\<lambda>l. l\<lparr>calls := n\<rparr>) s) = L" for s n
    using inv_table [of E M N "{}" s "\<lambda>l. l\<lparr>calls := n\<rparr>"] by (simp add: loop_wf_def set_eventloop_def)
  show "inv E M N {} s \<and> session_lock s = L \<Longrightarrow> inv E M N {} (set_eventloop (set_revents r) s) \<and>
      session_lock (set_eventloop (set_revents r) s) = L" for s r
    using inv_table [of E M N "{}" s "set_revents r"] by (simp add: loop_wf_def set_revents_def set_eventloop_def)
  show "run_all (\<lambda>s'. (inv E M N {} s' \<and> session_lock s' = L) \<and> fd_events (eventloop s') = fd_events (eventloop s)) (fin L)
      (run_fd E (fd_events (eventloop s) ! i) (pfd_fd p) (pfd_revents p) s)"
    if "inv E M N {} s \<and> session_lock s = L" for s i p
    using run_fd_ok [OF conjunct1 [OF that]] unfolding callback_ok_def
    by (rule run_all_mono) (use that in \<open>auto simp: loop_grows_def\<close>)
qed

section \<open>An example\<close>

text \<open>A lock screen in its main loop: the clock runs, nothing is typed, the clock of the system stands still.\<close>

definition still_env :: env where
  "still_env = demo_env\<lparr>ev_loop := (ev_loop demo_env)\<lparr>le_clock := (\<lambda>n. Timespec 0 0)\<rparr>\<rparr>"

definition demo_table :: "(fd_cb, timer_cb) loop_t" where
  "demo_table = \<lparr>fds = map (\<lambda>fd. \<lparr>pfd_fd = fd, pfd_events = POLLIN, pfd_revents = 0\<rparr>) [3, 4, 5] @ replicate 7 pollfd_undef,
     fd_length = 3, fd_capacity = 10, fd_events = [DisplayIn, ReplyIn, TermIn],
     timers = [\<lparr>t_addr = 1, t_callback = SetTime, t_expiry = Timespec 1 0, t_removed = False\<rparr>], calls = 1\<rparr>"

definition demo_lock :: dewlock_state where
  "demo_lock = (state_zero [Some []] (replicate 99 (WChunk 0)) [RIntr, RChunk 0])
     \<lparr>eventloop := demo_table, clock_timer := Some 1, username := Some ''joe'', time_text := Some ''09:05'',
      date_text := Some ''May 1, 2025'', compositor := True, subcompositor := True, wl_shm := True, lock_manager := True,
      session_lock := LockRequested, locked := True, run_display := True,
      password := \<lparr>sb_buf = Some (8192, replicate 1024 0), sb_cap = 1024, sb_len = 0\<rparr>\<rparr>"

lemma still_env_ok: "env_ok still_env"
  using demo_env_ok by (auto simp: env_ok_def still_env_def loop_env_ok_def timespec_ok_def nsec_per_sec_def demo_env_def)

lemma demo_lock_inv: "inv still_env 1920 2 {} demo_lock"
proof -
  have "timers_inv still_env {} demo_lock"
    using still_env_ok
    by (auto simp: timers_inv_def loop_ok_def env_ok_def loop_wf_def slot_ok_def live_timers_def demo_lock_def demo_table_def
        timer_slot_def state_zero_def split: timer_cb.split)
  moreover have "pw_repr 1024 (password demo_lock) []"
    by (auto simp: pw_repr_def sbuf_wf_def sbuf_text_def demo_lock_def utf8_text_def)
  then have "pw_inv still_env demo_lock" by (auto simp: pw_inv_def demo_lock_def state_zero_def)
  ultimately show ?thesis using still_env_ok
    by (simp add: inv_def screen_inv_def view_ok_def world_inv_def limits_ok_def inbox_ok_def disp_ok_def demo_lock_def
        state_zero_def still_env_def demo_env_def)
qed

text \<open>The same screen after a rejected attempt, with a new password typed in.\<close>

definition demo_typed :: dewlock_state where
  "demo_typed = demo_lock
     \<lparr>eventloop := demo_table\<lparr>timers := [\<lparr>t_addr = 2, t_callback = ClearPassword, t_expiry = Timespec 8 0, t_removed = False\<rparr>,
        \<lparr>t_addr = 3, t_callback = SetAuthIdle, t_expiry = Timespec 2 0, t_removed = False\<rparr>,
        \<lparr>t_addr = 1, t_callback = SetTime, t_expiry = Timespec 1 0, t_removed = False\<rparr>]\<rparr>,
      clear_password_timer := Some 2, auth_idle_timer := Some 3, auth_state := AUTH_STATE_INVALID,
      password := \<lparr>sb_buf = Some (8192, [104, 105] @ replicate 1022 0), sb_cap = 1024, sb_len = 2\<rparr>\<rparr>"

lemma demo_typed_text: "pw_repr 1024 (password demo_typed) [104, 105]" "utf8_text [104, 105] = [104, 105]"
proof -
  show u: "utf8_text [104, 105] = [104, 105]" by code_simp
  show "pw_repr 1024 (password demo_typed) [104, 105]"
    unfolding pw_repr_def u by (simp add: sbuf_wf_def sbuf_text_def demo_typed_def nth_append)
qed

lemma demo_typed_inv: "inv still_env 1920 2 {} demo_typed"
proof -
  have "live_timers (eventloop demo_typed) = {(2, ClearPassword), (3, SetAuthIdle), (1, SetTime)}"
    by (simp add: live_timers_list demo_typed_def demo_table_def)
  then have "timers_inv still_env {} demo_typed"
    using still_env_ok
    by (auto simp: timers_inv_def loop_ok_def env_ok_def loop_wf_def slot_ok_def demo_typed_def
        demo_lock_def demo_table_def timer_slot_def state_zero_def split: timer_cb.split)
  moreover have "pw_inv still_env demo_typed"
    using demo_typed_text(1) by (auto simp: pw_inv_def demo_typed_def)
  ultimately show ?thesis using still_env_ok
    by (simp add: inv_def screen_inv_def view_ok_def world_inv_def limits_ok_def inbox_ok_def disp_ok_def demo_typed_def
        demo_lock_def state_zero_def still_env_def demo_env_def)
qed

section \<open>Properties\<close>



text \<open>
  C9: the walk of the loop over its linked list of timers, during which callbacks register, mark
  and free timers, is for this program the walk over a snapshot of the list taken when it starts:
  no freed cell is followed, no timer is skipped or run twice, and the bound on the walk is enough.
\<close>

theorem timers_run_on_snapshot:
  assumes "inv E M N {} s"
  shows "dispatch_timers eventloop set_eventloop (run_timer E) now (Suc (length (timers (eventloop s))))
      (first_addr (timers (eventloop s))) s =
    dispatch_list eventloop set_eventloop (run_timer E) now (timer_list (eventloop s)) s \<and>
    dispatch_list eventloop set_eventloop (run_timer E) now (timer_list (eventloop s)) s \<noteq> Crashed"
proof -
  have i: "inv E M N {} s \<and> session_lock s = session_lock s" using assms by simp
  have l: "timer_list (eventloop s) = [] @ timer_list (eventloop s)" by simp
  have "first_addr (timers (eventloop s)) = (case timer_list (eventloop s) of [] \<Rightarrow> None | a # _ \<Rightarrow> Some a)"
    by (simp add: first_addr_def split: list.split)
  then show ?thesis
    using dewlock.dispatch_timers_list [OF i l, of "Suc (length (timers (eventloop s)))" now]
      dewlock.dispatch_list_inv [OF i l, of now] by auto
qed

theorem timers_run_on_snapshot_witness:
  "dispatch_timers eventloop set_eventloop (run_timer still_env) (Timespec 9 0) 2 (Some 1) demo_lock =
   dispatch_list eventloop set_eventloop (run_timer still_env) (Timespec 9 0) [1] demo_lock"
  using timers_run_on_snapshot [OF demo_lock_inv, of "Timespec 9 0"]
  by (simp add: demo_lock_def demo_table_def first_addr_def numeral_2_eq_2 [symmetric] del: dispatch_timers.simps dispatch_list.simps)

end
