(* ===== verification/Cli.thy ===== *)
theory Cli
  imports Strings Results
begin

text \<open>
  \<^verbatim>\<open>src/cli.c\<close> and \<^verbatim>\<open>src/log.c\<close>: the command line and the log. What \<^verbatim>\<open>getopt_long\<close>
  makes of the arguments is a parameter: the list of its results before it returns -1, each an
  option with its argument, an option it does not know (a letter, or the word) or a word whose
  argument is missing. The text that goes to the terminal is part of the result.
\<close>

section \<open>The log\<close>

datatype log_level_t = LOG_LEVEL_NONE | LOG_LEVEL_ERROR | LOG_LEVEL_WARN | LOG_LEVEL_INFO | LOG_LEVEL_DEBUG

fun level_number :: "log_level_t \<Rightarrow> nat" where
  "level_number LOG_LEVEL_NONE = 0"
| "level_number LOG_LEVEL_ERROR = 1"
| "level_number LOG_LEVEL_WARN = 2"
| "level_number LOG_LEVEL_INFO = 3"
| "level_number LOG_LEVEL_DEBUG = 4"

definition level_names :: "string list" where
  "level_names = [''NONE'', ''ERROR'', ''WARN'', ''INFO'', ''DEBUG'']"

definition log_init :: "log_level_t \<Rightarrow> log_level_t \<Rightarrow> log_level_t" where
  "log_init level current_level = level"

definition newline_char :: char where
  "newline_char = CHR 0x0A"

text \<open>The message is the format with its arguments filled in.\<close>

definition log_put :: "log_level_t \<Rightarrow> log_level_t \<Rightarrow> string \<Rightarrow> int \<Rightarrow> string \<Rightarrow> string" where
  "log_put current_level level file line msg =
     (if level_number level > level_number current_level then []
      else ''['' @ file @ '':'' @ print_int line @ ''] '' @ level_names ! level_number level @ '' - '' @ msg @
           [newline_char])"

section \<open>Options\<close>

record option_t =
  opt_name :: string
  opt_has_arg :: bool
  opt_val :: char

definition OPTIONS :: "option_t list" where
  "OPTIONS =
     [\<lparr>opt_name = ''config'', opt_has_arg = True, opt_val = CHR ''c''\<rparr>,
      \<lparr>opt_name = ''debug'', opt_has_arg = False, opt_val = CHR ''d''\<rparr>,
      \<lparr>opt_name = ''daemonize'', opt_has_arg = False, opt_val = CHR ''f''\<rparr>,
      \<lparr>opt_name = ''ready-fd'', opt_has_arg = True, opt_val = CHR ''r''\<rparr>,
      \<lparr>opt_name = ''help'', opt_has_arg = False, opt_val = CHR ''h''\<rparr>,
      \<lparr>opt_name = ''version'', opt_has_arg = False, opt_val = CHR ''v''\<rparr>,
      \<lparr>opt_name = ''pam'', opt_has_arg = False, opt_val = CHR ''p''\<rparr>]"

definition DESC :: "string list" where
  "DESC =
     [''Path to the config file.'', ''Enable debugging output.'',
      ''Detach from the controlling terminal after locking.'',
      ''File descriptor to send readiness notifications to.'',
      ''Show this help message and quit.'', ''Show the version number and quit.'',
      ''Create PAM configuration and quit. Must be run as sudo.'']"

definition ARGS :: "string list" where
  "ARGS = [''path'', [], [], ''fd'', [], [], []]"

record cli_opts_t =
  o_config :: "string option"
  o_debug :: bool
  o_daemonize :: bool
  o_ready_fd :: int

definition cli_opts :: cli_opts_t where
  "cli_opts = \<lparr>o_config = None, o_debug = False, o_daemonize = False, o_ready_fd = - 1\<rparr>"

section \<open>Messages\<close>

text \<open>A field of \<open>w\<close> characters, aligned to the left.\<close>

definition pad_right :: "nat \<Rightarrow> string \<Rightarrow> string" where
  "pad_right w s = s @ replicate (w - length s) (CHR '' '')"

definition help_line :: "option_t \<times> string \<times> string \<Rightarrow> string" where
  "help_line x =
     (case x of (opt, arg, desc) \<Rightarrow>
        (let name = (if opt_has_arg opt then snprintf_to 32 (opt_name opt @ '' <'' @ arg @ ''>'') else opt_name opt)
         in ''  -'' @ [opt_val opt] @ '', --'' @ pad_right 27 name @ desc @ [newline_char]))"

definition print_help :: string where
  "print_help = ''Usage: dewlock [options...]'' @ [newline_char, newline_char] @
     concat (map help_line (zip OPTIONS (zip ARGS DESC)))"

definition print_version :: "string \<Rightarrow> string \<Rightarrow> string" where
  "print_version version sha = ''dewlock version '' @ version @ '' ('' @ sha @ '')'' @ [newline_char]"

datatype getopt_ret =
    Opt char string
  | OptUnknown "char option" string
  | OptMissing string

definition print_error :: "getopt_ret \<Rightarrow> string" where
  "print_error r =
     (case r of
        OptUnknown (Some c) word \<Rightarrow> ''dewlock: invalid option '' @ [CHR 0x27] @ ''-'' @ [c] @ [CHR 0x27, newline_char]
      | OptUnknown None word \<Rightarrow> ''dewlock: invalid option '' @ [CHR 0x27] @ word @ [CHR 0x27, newline_char]
      | OptMissing word \<Rightarrow>
          ''dewlock: option '' @ [CHR 0x27] @ word @ [CHR 0x27] @ '' requires an argument'' @ [newline_char]
      | Opt c word \<Rightarrow>
          ''dewlock: option '' @ [CHR 0x27] @ word @ [CHR 0x27] @ '' requires an argument'' @ [newline_char])"

section \<open>The PAM configuration\<close>

text \<open>
  The exit status and what has been written; \<^verbatim>\<open>sizeof\<close> of the array counts its terminator. The
  arguments say whether \<^verbatim>\<open>fopen\<close>, \<^verbatim>\<open>fchmod\<close> and \<^verbatim>\<open>fwrite\<close> succeed.
\<close>

definition create_pam_configuration :: "bool \<Rightarrow> bool \<Rightarrow> bool \<Rightarrow> int \<times> string option" where
  "create_pam_configuration fopen_ok fchmod_ok fwrite_ok =
     (if \<not> fopen_ok then (1, None)
      else if \<not> fchmod_ok then (1, Some [])
      else if \<not> fwrite_ok then (1, Some [])
      else (0, Some (''auth include login'' @ [newline_char] @ [CHR 0x00])))"

section \<open>Parsing\<close>

record cli_env =
  ce_version :: string
  ce_sha :: string
  ce_fopen :: bool
  ce_fchmod :: bool
  ce_fwrite :: bool

datatype cli_ret =
    CliReturns result_t cli_opts_t
  | CliExits int

text \<open>The result, what goes to the standard output and to the standard error, and the written file.\<close>

fun cli_parse :: "cli_env \<Rightarrow> getopt_ret list \<Rightarrow> cli_opts_t \<Rightarrow> cli_ret \<times> string \<times> string \<times> string option" where
  "cli_parse V [] opts = (CliReturns OK opts, [], [], None)"
| "cli_parse V (Opt c arg # rs) opts =
     (if c = CHR ''c'' then cli_parse V rs (opts\<lparr>o_config := Some arg\<rparr>)
      else if c = CHR ''d'' then cli_parse V rs (opts\<lparr>o_debug := True\<rparr>)
      else if c = CHR ''f'' then cli_parse V rs (opts\<lparr>o_daemonize := True\<rparr>)
      else if c = CHR ''r'' then cli_parse V rs (opts\<lparr>o_ready_fd := to_int32 (strtol10 arg)\<rparr>)
      else if c = CHR ''h'' then (CliExits 0, [], print_help, None)
      else if c = CHR ''v'' then (CliExits 0, print_version (ce_version V) (ce_sha V), [], None)
      else if c = CHR ''p'' then
        (let (code, file) = create_pam_configuration (ce_fopen V) (ce_fchmod V) (ce_fwrite V)
         in (CliExits code, [], [], file))
      else (CliReturns ERR_CLI_INVALID_OPTION opts, print_error (Opt c arg), print_help, None))"
| "cli_parse V (r # rs) opts = (CliReturns ERR_CLI_INVALID_OPTION opts, print_error r, print_help, None)"

section \<open>What the options do\<close>

definition setting_opt :: "getopt_ret \<Rightarrow> bool" where
  "setting_opt r = (case r of Opt c arg \<Rightarrow> c \<in> set ''cdfr'' | _ \<Rightarrow> False)"

text \<open>The argument of the last option with a letter.\<close>

definition last_arg :: "char \<Rightarrow> getopt_ret list \<Rightarrow> string option" where
  "last_arg c rs = foldl (\<lambda>a r. case r of Opt c' arg \<Rightarrow> if c' = c then Some arg else a | _ \<Rightarrow> a) None rs"

fun opt_apply :: "cli_opts_t \<Rightarrow> getopt_ret \<Rightarrow> cli_opts_t" where
  "opt_apply opts (Opt c arg) =
     (if c = CHR ''c'' then opts\<lparr>o_config := Some arg\<rparr>
      else if c = CHR ''d'' then opts\<lparr>o_debug := True\<rparr>
      else if c = CHR ''f'' then opts\<lparr>o_daemonize := True\<rparr>
      else if c = CHR ''r'' then opts\<lparr>o_ready_fd := to_int32 (strtol10 arg)\<rparr>
      else opts)"
| "opt_apply opts r = opts"

lemma cli_parse_settings:
  "list_all setting_opt rs \<Longrightarrow> cli_parse V (rs @ rest) opts = cli_parse V rest (foldl opt_apply opts rs)"
proof (induction rs arbitrary: opts)
  case (Cons r rs)
  then show ?case by (cases r) (auto simp: setting_opt_def)
qed simp

lemma last_arg_snoc:
  "last_arg c (rs @ [r]) = (case r of Opt c' arg \<Rightarrow> if c' = c then Some arg else last_arg c rs | _ \<Rightarrow> last_arg c rs)"
  by (simp add: last_arg_def split: getopt_ret.split)

lemma foldl_opt_apply:
  assumes "list_all setting_opt rs"
  shows "foldl opt_apply opts rs =
    \<lparr>o_config = (case last_arg (CHR ''c'') rs of None \<Rightarrow> o_config opts | Some a \<Rightarrow> Some a),
     o_debug = (o_debug opts \<or> last_arg (CHR ''d'') rs \<noteq> None),
     o_daemonize = (o_daemonize opts \<or> last_arg (CHR ''f'') rs \<noteq> None),
     o_ready_fd = (case last_arg (CHR ''r'') rs of None \<Rightarrow> o_ready_fd opts | Some a \<Rightarrow> to_int32 (strtol10 a))\<rparr>"
  using assms
proof (induction rs rule: rev_induct)
  case (snoc r rs)
  then obtain c arg where "r = Opt c arg" "c \<in> set ''cdfr''"
    by (cases r) (auto simp: setting_opt_def)
  with snoc show ?case by (auto simp: last_arg_snoc)
qed (simp add: last_arg_def)

section \<open>Properties\<close>

text \<open>
  C38: the command line sets each option to its last occurrence and nothing else; the first option
  that asks for help, for the version or for the PAM file ends the program, and the first unknown
  one is an error, whatever follows.
\<close>

theorem cli_parse_spec:
  assumes "list_all setting_opt rs"
  shows "fst (cli_parse V rs cli_opts) = CliReturns OK
      \<lparr>o_config = last_arg (CHR ''c'') rs, o_debug = (last_arg (CHR ''d'') rs \<noteq> None),
       o_daemonize = (last_arg (CHR ''f'') rs \<noteq> None),
       o_ready_fd = (case last_arg (CHR ''r'') rs of None \<Rightarrow> - 1 | Some a \<Rightarrow> to_int32 (strtol10 a))\<rparr> \<and>
    fst (cli_parse V (rs @ Opt (CHR ''h'') a # rest) cli_opts) = CliExits 0 \<and>
    fst (cli_parse V (rs @ Opt (CHR ''v'') a # rest) cli_opts) = CliExits 0 \<and>
    fst (cli_parse V (rs @ Opt (CHR ''p'') a # rest) cli_opts) =
      CliExits (if ce_fopen V \<and> ce_fchmod V \<and> ce_fwrite V then 0 else 1) \<and>
    fst (cli_parse V (rs @ OptUnknown l w # rest) cli_opts) =
      CliReturns ERR_CLI_INVALID_OPTION (foldl opt_apply cli_opts rs)"
  using cli_parse_settings [OF assms, of V "[]"] foldl_opt_apply [OF assms, of cli_opts]
  by (simp add: cli_parse_settings [OF assms] cli_opts_def create_pam_configuration_def split: option.split)

theorem cli_parse_spec_witness:
  "fst (cli_parse \<lparr>ce_version = ''1'', ce_sha = ''0'', ce_fopen = True, ce_fchmod = True, ce_fwrite = True\<rparr>
     [Opt (CHR ''r'') ''5'', Opt (CHR ''f'') [], Opt (CHR ''r'') ''7''] cli_opts) =
   CliReturns OK \<lparr>o_config = None, o_debug = False, o_daemonize = True, o_ready_fd = 7\<rparr>"
proof -
  have "strtol10 ''7'' = 7" by code_simp
  then show ?thesis
    using cli_parse_spec [of "[Opt (CHR ''r'') ''5'', Opt (CHR ''f'') [], Opt (CHR ''r'') ''7'']"
        "\<lparr>ce_version = ''1'', ce_sha = ''0'', ce_fopen = True, ce_fchmod = True, ce_fwrite = True\<rparr>"]
    by (simp add: setting_opt_def last_arg_def to_int32_def)
qed

text \<open>
  the PAM file the program creates does not end with its line: the terminator of the string
  is written too.
\<close>

theorem pam_configuration_has_terminator:
  "snd (create_pam_configuration True True True) = Some (''auth include login'' @ [CHR 0x0A, CHR 0x00])"
  by (simp add: create_pam_configuration_def newline_char_def)

end
