(* ===== verification/Dewlock_Main.thy ===== *)
theory Dewlock_Main
  imports Dispatch Cli
begin

text \<open>
  \<^verbatim>\<open>main.c\<close>: start, lock, main loop and end of the program. \<open>main_env\<close> gathers the
  answers of the system. \<^verbatim>\<open>return\<close> from \<^verbatim>\<open>main\<close> is the end of the process. If the event
  loop cannot be allocated the null pointer is dereferenced at its first use; the model reports
  the crash at once. With \<^verbatim>\<open>-d\<close> the start also logs the lines of \<open>cfg_debug\<close>, which
  changes no state.
\<close>

section \<open>The environment\<close>

record daemon_env =
  dm_pipe :: bool
  dm_fork :: fork_ret
  dm_chdir :: bool
  dm_write :: bool
  dm_read :: "byte option"

record main_env =
  mn_env :: env
  mn_mem :: mem_env
  mn_cli :: cli_env
  mn_args :: "getopt_ret list"
  mn_auth_exit :: "int option"
  mn_username :: "string option"
  mn_readable :: "string \<Rightarrow> bool"
  mn_wordexp :: "string \<Rightarrow> string list option"
  mn_fopen :: "string \<Rightarrow> string option"
  mn_png :: "string \<Rightarrow> (bool \<times> image_t) option"
  mn_einval :: bool
  mn_sysconfdir :: string
  mn_pipe :: bool
  mn_fcntl :: bool
  mn_connect :: bool
  mn_loop_calloc :: bool
  mn_loop_malloc :: bool
  mn_event_alloc :: "nat \<Rightarrow> bool"
  mn_lock_proxy :: bool
  mn_ready_write :: bool
  mn_daemon :: daemon_env
  mn_display_fd :: int
  mn_reply_fd :: int
  mn_sigusr_fd :: int

text \<open>
  One round of the main loop: the reply bytes that have arrived since the last one, what
  \<^verbatim>\<open>wl_display_flush\<close> answers (\<open>False\<close> is a failure other than \<^verbatim>\<open>EAGAIN\<close>), and what
  \<^verbatim>\<open>poll\<close> answers for a timeout.
\<close>

record tick =
  tk_replies :: "byte list"
  tk_flush :: bool
  tk_poll :: "int \<Rightarrow> poll_result"

section \<open>Daemon\<close>

datatype daemon_ret = DaemonReturns result_t | DaemonExits int

text \<open>The process that called returns or exits; \<open>FORK_CHILD\<close> means that it is the new one.\<close>

definition daemonize :: "daemon_env \<Rightarrow> daemon_ret" where
  "daemonize D =
     (if \<not> dm_pipe D then DaemonReturns ERR_DAEMON_PIPE
      else if dm_fork D = FORK_CHILD then
        (if \<not> dm_chdir D then DaemonExits 1
         else if \<not> dm_write D then DaemonExits 1
         else DaemonReturns OK)
      else
        (case dm_read D of
           None \<Rightarrow> DaemonReturns ERR_DAEMON_HANDSHAKE
         | Some success \<Rightarrow>
             (if success = 0 then DaemonReturns ERR_DAEMON_HANDSHAKE else DaemonExits 0)))"

section \<open>Start\<close>

definition cli_get :: "main_env \<Rightarrow> cli_opts_t" where
  "cli_get M = (case cli_parse (mn_cli M) (mn_args M) cli_opts of (CliReturns r opts, _) \<Rightarrow> opts | _ \<Rightarrow> cli_opts)"

definition main_config :: "main_env \<Rightarrow> dewlock_state \<Rightarrow> dewlock_state run" where
  "main_config M s =
     (case (case o_config (cli_get M) of
              Some path \<Rightarrow> Done (Some path)
            | None \<Rightarrow> cfg_path (mn_wordexp M) (mn_readable M) (mn_sysconfdir M)) of
        Fault \<Rightarrow> Crashed
      | Blocked \<Rightarrow> Waiting
      | Done path \<Rightarrow>
          run_of_comp (cmap (\<lambda>(cfg, imgs). s\<lparr>config := cfg, images := imgs\<rparr>)
            (cfg_read (mn_einval M) (mn_fopen M) (mn_wordexp M) (mn_png M) path (config s) (images s))))"

definition main_buffers :: "main_env \<Rightarrow> dewlock_state \<Rightarrow> dewlock_state run" where
  "main_buffers M s =
     (case sbuf_create (mn_mem M) sbuf_static_init (password s) 1024 of
        Fault \<Rightarrow> Crashed
      | Blocked \<Rightarrow> Waiting
      | Done (res, pw, st) \<Rightarrow>
          (let s1 = s\<lparr>password := pw\<rparr> in
           if res \<noteq> OK then Exited 1 s1
           else let s2 = clk_set_time (mn_env M) s1 in
           if \<not> mn_pipe M then Exited 1 s2
           else if \<not> mn_fcntl M then Exited 1 s2
           else let s3 = s2\<lparr>surfaces := []\<rparr> in
           if \<not> mn_connect M then Exited 1 s3
           else (case loop_create (mn_loop_calloc M) (mn_loop_malloc M) of
                   None \<Rightarrow> Crashed
                 | Some l \<Rightarrow> Running (s3\<lparr>eventloop := l\<rparr>))))"

definition main_init :: "main_env \<Rightarrow> dewlock_state \<Rightarrow> dewlock_state run" where
  "main_init M s =
     (case fst (cli_parse (mn_cli M) (mn_args M) cli_opts) of
        CliExits c \<Rightarrow> Exited c s
      | CliReturns result opts \<Rightarrow>
          (if result \<noteq> OK then Exited 1 s
           else (case mn_auth_exit M of
               Some c \<Rightarrow> Exited c s
             | None \<Rightarrow>
                 (let s1 = s\<lparr>failed_attempts := 0, images := []\<rparr> in
                  case mn_username M of
                    None \<Rightarrow> Crashed
                  | Some name \<Rightarrow> rbind (main_config M (s1\<lparr>username := Some name\<rparr>)) (main_buffers M)))))"

section \<open>Locking\<close>

text \<open>Each round of \<^verbatim>\<open>while (!state.locked)\<close> uses up one batch of events; \<open>n\<close> bounds the rounds.\<close>

fun wait_locked :: "env \<Rightarrow> nat \<Rightarrow> dewlock_state \<Rightarrow> dewlock_state run" where
  "wait_locked E 0 s = Waiting"
| "wait_locked E (Suc n) s =
     (if locked s then Running s else rbind (display_dispatch E (Exited 2) s) (wait_locked E n))"

definition main_globals :: "main_env \<Rightarrow> dewlock_state \<Rightarrow> dewlock_state run" where
  "main_globals M s =
     rbind (display_dispatch (mn_env M) (Exited 1) s)
       (\<lambda>s1. if \<not> compositor s1 \<or> \<not> subcompositor s1 \<or> \<not> wl_shm s1 \<or> \<not> lock_manager s1 then Exited 1 s1
             else if \<not> mn_lock_proxy M then Crashed
             else Running (s1\<lparr>session_lock := LockRequested\<rparr>))"

definition main_lock :: "main_env \<Rightarrow> dewlock_state \<Rightarrow> dewlock_state run" where
  "main_lock M s =
     rbind (display_dispatch (mn_env M) (Exited 1) s)
       (\<lambda>s1. rbind (create_surfaces (mn_env M) (map s_id (surfaces s1)) s1)
         (\<lambda>s2. wait_locked (mn_env M) (Suc (length (inbox s2))) s2))"

definition main_ready :: "main_env \<Rightarrow> dewlock_state \<Rightarrow> dewlock_state run" where
  "main_ready M s =
     (if o_ready_fd (cli_get M) \<ge> 0 \<and> \<not> mn_ready_write M then Exited 2 s else Running s)"

section \<open>Main loop\<close>

definition add_fd :: "main_env \<Rightarrow> nat \<Rightarrow> int \<Rightarrow> fd_cb \<Rightarrow> dewlock_state \<Rightarrow> dewlock_state run" where
  "add_fd M n fd cb s =
     run_of_comp (cmap (\<lambda>l. s\<lparr>eventloop := l\<rparr>) (loop_add_fd (mn_event_alloc M n) True (eventloop s) fd POLLIN cb))"

definition main_register :: "main_env \<Rightarrow> dewlock_state \<Rightarrow> dewlock_state run" where
  "main_register M s =
     rbind (add_fd M 0 (mn_display_fd M) DisplayIn s)
       (\<lambda>s1. rbind (add_fd M 1 (mn_reply_fd M) ReplyIn s1)
         (\<lambda>s2. rbind (add_fd M 2 (mn_sigusr_fd M) TermIn s2)
           (\<lambda>s3. Running ((clk_schedule_timer (mn_env M) s3)\<lparr>run_display := True\<rparr>))))"

definition deliver :: "byte list \<Rightarrow> dewlock_state \<Rightarrow> dewlock_state" where
  "deliver bs s = s\<lparr>rep_pipe := (rep_pipe s)\<lparr>p_data := p_data (rep_pipe s) @ bs\<rparr>\<rparr>"

text \<open>The body of the loop: the new value of \<open>result\<close>, whether the loop is left, and the state.\<close>

definition main_iter :: "env \<Rightarrow> tick \<Rightarrow> result_t \<Rightarrow> dewlock_state \<Rightarrow> result_t \<times> bool \<times> dewlock_state run" where
  "main_iter E tk result s =
     (if \<not> tk_flush tk then (result, True, Running s)
      else case loop_poll (ev_loop E) (tk_poll tk) eventloop set_eventloop (run_fd E) (run_timer E) s of
             (result', m) \<Rightarrow> (result', result' \<noteq> OK, m))"

section \<open>End\<close>

definition cleanup :: "env \<Rightarrow> result_t \<Rightarrow> dewlock_state \<Rightarrow> dewlock_state run" where
  "cleanup E result s =
     rbind (display_dispatch E Running ((clk_cancel_timer s)\<lparr>session_lock := Unlocked\<rparr>))
       (\<lambda>s1. Exited (if result = OK then 0 else 1) s1)"

text \<open>The loop with what follows it; when the ticks are used up it has not returned.\<close>

fun main_loop :: "env \<Rightarrow> tick list \<Rightarrow> result_t \<Rightarrow> dewlock_state \<Rightarrow> dewlock_state run" where
  "main_loop E tks result s =
     (if \<not> run_display s then cleanup E result s
      else case tks of
        [] \<Rightarrow> Waiting
      | tk # tks' \<Rightarrow>
          (case main_iter E tk result (deliver (tk_replies tk) s) of
             (result', stop, m) \<Rightarrow>
               rbind m (\<lambda>s'. if stop then cleanup E result' s' else main_loop E tks' result' s')))"

declare main_loop.simps [simp del]

text \<open>Everything after the session is locked and the other process has been told so.\<close>

definition main_run :: "main_env \<Rightarrow> tick list \<Rightarrow> dewlock_state \<Rightarrow> dewlock_state run" where
  "main_run M tks s =
     (let go = rbind (main_register M s) (main_loop (mn_env M) tks OK) in
      if o_daemonize (cli_get M) then
        (case daemonize (mn_daemon M) of
           DaemonExits c \<Rightarrow> Exited c s
         | DaemonReturns r \<Rightarrow> (if r \<noteq> OK then cleanup (mn_env M) r s else go))
      else go)"

definition main :: "main_env \<Rightarrow> tick list \<Rightarrow> dewlock_state \<Rightarrow> dewlock_state run" where
  "main M tks s =
     rbind (main_init M s)
       (\<lambda>s1. rbind (main_globals M s1)
         (\<lambda>s2. rbind (main_lock M s2)
           (\<lambda>s3. rbind (main_ready M s3) (main_run M tks))))"

end
