(* ===== verification/Lock_Safety.thy ===== *)
theory Lock_Safety
  imports Handlers Dewlock_Main
begin

text \<open>
  The program from start to end. Between two rounds of the main loop the invariant \<open>inv\<close> holds;
  while nothing asks the program to stop the loop stays \<open>calm\<close>: it runs on, every verdict that
  has arrived is a rejection, the connection works, and the descriptor of the signal is quiet.
  The loop keeps \<open>calm\<close> by the contract of the event loop (\<open>calm_dewlock\<close>), so the session is
  unlocked only when one of these causes occurs.
\<close>

section \<open>A calm main loop\<close>

definition fd_table :: "fd_cb list" where
  "fd_table = [DisplayIn, ReplyIn, TermIn]"

definition calm :: "dewlock_state \<Rightarrow> bool" where
  "calm s \<longleftrightarrow> run_display s \<and> (\<forall>x\<in>set (p_data (rep_pipe s)). x = 0) \<and> None \<notin> set (inbox s) \<and>
     fd_events (eventloop s) = fd_table \<and>
     (let p = fds (eventloop s) ! 2 in pfd_revents p AND (pfd_events p OR POLLHUP OR POLLERR) = 0)"

lemma calm_grows: "calm s \<Longrightarrow> grows s s' \<Longrightarrow> calm s'"
  by (simp add: calm_def grows_def loop_grows_def control_def)

lemma calm_inbox: "calm s \<Longrightarrow> inbox s = b # rest \<Longrightarrow> calm (s\<lparr>inbox := rest\<rparr>)"
  by (simp add: calm_def)

lemma calm_unlink: "calm (set_eventloop (unlink a) s) = calm s"
  by (simp add: calm_def set_eventloop_def unlink_def)

lemma calm_calls: "calm (set_eventloop (\<lambda>l. l\<lparr>calls := n\<rparr>) s) = calm s"
  by (simp add: calm_def set_eventloop_def)

lemma calm_revents:
  assumes "calm s" "loop_wf (eventloop s)" "r 2 = 0"
  shows "calm (set_eventloop (set_revents r) s)"
proof -
  have "2 < fd_length (eventloop s)" "2 < length (fds (eventloop s))"
    using assms(1,2) by (simp_all add: calm_def fd_table_def loop_wf_def)
  then have "fds (set_revents r (eventloop s)) ! 2 = (fds (eventloop s) ! 2)\<lparr>pfd_revents := 0\<rparr>"
    using assms(3) by (simp add: set_revents_def nth_enumerate_eq flip: numeral_2_eq_2)
  then show ?thesis using assms(1) by (simp add: calm_def set_eventloop_def set_revents_def)
qed

definition calm_ok :: "env \<Rightarrow> int \<Rightarrow> int \<Rightarrow> session_lock \<Rightarrow> dewlock_state \<Rightarrow> bool" where
  "calm_ok E M N L s \<longleftrightarrow> inv E M N {} s \<and> session_lock s = L \<and> calm s"

lemma keeps_calm:
  assumes "keeps E M N {} t m" "calm t" "session_lock t = L" "eventloop t = eventloop s"
  shows "run_all (\<lambda>s'. calm_ok E M N L s' \<and> fd_events (eventloop s') = fd_events (eventloop s)) (fin L) m"
  using assms(1) unfolding keeps_def
  by (rule run_all_mono)
    (use assms(2-4) calm_grows in \<open>auto simp: calm_ok_def grows_def control_def loop_grows_def\<close>)

lemma display_in_calm:
  assumes "calm_ok E M N L s"
  shows "run_all (\<lambda>s'. calm_ok E M N L s' \<and> fd_events (eventloop s') = fd_events (eventloop s)) (fin L) (display_in E s)"
proof (cases "inbox s")
  case Nil
  then show ?thesis by (simp add: display_in_def display_dispatch_def)
next
  case (Cons b rest)
  have I: "inv E M N {} s" "calm s" "session_lock s = L" using assms by (simp_all add: calm_ok_def)
  then obtain es where b: "b = Some es" using Cons by (cases b) (simp_all add: calm_def)
  show ?thesis unfolding display_in_def
    by (rule keeps_calm [OF dispatch_batch_keeps [OF I(1) Cons [unfolded b]] calm_inbox [OF I(2) Cons]])
      (use I in simp_all)
qed

lemma reply_in_calm:
  assumes "calm_ok E M N L s"
  shows "run_all (\<lambda>s'. calm_ok E M N L s' \<and> fd_events (eventloop s') = fd_events (eventloop s)) (fin L) (reply_in E m s)"
proof (cases "m AND POLLIN = 0")
  case True
  then show ?thesis using assms by (simp add: reply_in_def fin_def calm_ok_def)
next
  case False
  have I: "inv E M N {} s" "calm s" "session_lock s = L" using assms by (simp_all add: calm_ok_def)
  show ?thesis
  proof (cases "auth_read_reply (reads s) (rep_pipe s) False")
    case (Done x)
    obtain res ok p rs where x: "x = (res, ok, p, rs)" by (cases x)
    show ?thesis
    proof (cases "res = OK")
      case True
      let ?s1 = "s\<lparr>rep_pipe := p, reads := rs\<rparr>"
      obtain y rest where y: "p_data (rep_pipe s) = y # rest" "ok = (y \<noteq> 0)" "p = (rep_pipe s)\<lparr>p_data := rest\<rparr>"
        using auth_read_reply_OK [OF Done [unfolded x True]] by blast
      have z: "\<not> ok" "calm ?s1" using I(2) y by (auto simp: calm_def)
      have i1: "inv E M N {} ?s1" using inv_verdict_stored [OF I(1)] by (simp add: verdict_stored_def)
      have "run_all (\<lambda>s'. calm_ok E M N L s' \<and> fd_events (eventloop s') = fd_events (eventloop s)) (fin L)
          (damage_state E ((pwd_schedule_auth_idle E (?s1\<lparr>auth_state := AUTH_STATE_INVALID\<rparr>))
             \<lparr>failed_attempts := failed_attempts s + 1\<rparr>))"
        by (rule keeps_calm [OF rejected_keeps [OF i1]]) (use z I in simp_all)
      then show ?thesis using False Done x True z by (simp add: reply_in_def Let_def)
    qed (use False Done x I in \<open>simp add: reply_in_def Let_def fin_def\<close>)
  qed (use False auth_read_reply_safe in \<open>auto simp: reply_in_def\<close>)
qed

interpretation calm_dewlock: loop_client eventloop set_eventloop "run_fd E" "run_timer E"
  "calm_ok E M N L" "\<lambda>a s. fired_inv E M N a s \<and> session_lock s = L \<and> calm s" "fin L" "\<lambda>r. r 2 = 0"
  for E M N L
proof unfold_locales
  show "eventloop (set_eventloop f s) = f (eventloop s)" for f s by (simp add: set_eventloop_def)
  show "set_eventloop (\<lambda>_. f (eventloop s)) s = set_eventloop f s" for f s by (simp add: set_eventloop_def)
  show wf: "calm_ok E M N L s \<Longrightarrow> loop_wf (eventloop s)" for s
    by (simp add: calm_ok_def inv_def timers_inv_def loop_ok_def)
  show "run_all (\<lambda>s'. (fired_inv E M N (t_addr t) s' \<and> session_lock s' = L \<and> calm s') \<and> loop_wf (eventloop s') \<and>
      (\<exists>new. timer_list (eventloop s') = new @ timer_list (eventloop s))) (fin L) (run_timer E (t_callback t) s)"
    if "calm_ok E M N L s" "t \<in> set (timers (eventloop s))" "\<not> t_removed t" for s t
  proof -
    have "(t_addr t, t_callback t) \<in> live_timers (eventloop s)" using that(2,3) by (auto simp: live_timers_def)
    moreover have I: "inv E M N {} s" "calm s" "session_lock s = L" using that(1) by (simp_all add: calm_ok_def)
    ultimately show ?thesis
      by (intro run_all_mono [OF run_timer_ok])
        (use I calm_grows in \<open>auto simp: grows_def loop_grows_def loop_ok_def control_def\<close>)
  qed
  show "fired_inv E M N a s \<and> session_lock s = L \<and> calm s \<Longrightarrow> calm_ok E M N L (set_eventloop (unlink a) s)" for a s
    by (simp add: calm_ok_def fired_inv_def calm_unlink) (simp add: set_eventloop_def)
  show "calm_ok E M N L s \<Longrightarrow> t \<in> set (timers (eventloop s)) \<Longrightarrow> t_removed t \<Longrightarrow>
      calm_ok E M N L (set_eventloop (unlink (t_addr t)) s)" for s t
    using inv_unlink_removed [of E M N s t] by (simp add: calm_ok_def fired_inv_def calm_unlink) (simp add: set_eventloop_def)
  show "calm_ok E M N L s \<Longrightarrow> calm_ok E M N L (set_eventloop (\<lambda>l. l\<lparr>calls := n\<rparr>) s)" for s n
    using inv_table [of E M N "{}" s "\<lambda>l. l\<lparr>calls := n\<rparr>"]
    by (simp add: loop_wf_def calm_ok_def calm_calls) (simp add: set_eventloop_def)
  show "calm_ok E M N L s \<Longrightarrow> r 2 = 0 \<Longrightarrow> calm_ok E M N L (set_eventloop (set_revents r) s)" for s r
    using inv_table [of E M N "{}" s "set_revents r"] calm_revents [of s r] wf [of s]
    by (simp add: loop_wf_def calm_ok_def set_revents_def) (simp add: set_eventloop_def)
  show "run_all (\<lambda>s'. calm_ok E M N L s' \<and> fd_events (eventloop s') = fd_events (eventloop s)) (fin L)
      (run_fd E (fd_events (eventloop s) ! i) (pfd_fd p) (pfd_revents p) s)"
    if "calm_ok E M N L s" "i < length (fd_events (eventloop s))" "p = fds (eventloop s) ! i"
      "pfd_revents p AND (pfd_events p OR POLLHUP OR POLLERR) \<noteq> 0" for s i p
  proof -
    have c: "fd_events (eventloop s) = fd_table" "i \<noteq> 2" using that by (auto simp: calm_ok_def calm_def Let_def)
    then have "i = 0 \<or> i = 1" using that(2) by (auto simp: fd_table_def)
    then show ?thesis using display_in_calm [OF that(1)] reply_in_calm [OF that(1)] c(1)
      by (auto simp: run_fd_def fd_table_def)
  qed
qed

section \<open>The phases before the main loop\<close>

text \<open>Between the phases: no descriptor is registered, no reply has arrived, and the loop is
  off; \<open>J\<close> are the batches that are still to come.\<close>

definition pre :: "env \<Rightarrow> int \<Rightarrow> int \<Rightarrow> wl_event list option set \<Rightarrow> session_lock \<Rightarrow> dewlock_state \<Rightarrow> bool" where
  "pre E M N J L s \<longleftrightarrow> inv E M N {} s \<and> \<not> run_display s \<and> session_lock s = L \<and> p_data (rep_pipe s) = [] \<and>
     set (inbox s) \<subseteq> J \<and> fd_events (eventloop s) = [] \<and> length (fds (eventloop s)) = 10"

definition locking :: "env \<Rightarrow> int \<Rightarrow> int \<Rightarrow> wl_event list option set \<Rightarrow> dewlock_state \<Rightarrow> bool" where
  "locking E M N J s \<longleftrightarrow> pre E M N J LockRequested s \<and> compositor s \<and> subcompositor s"

definition not_unlocked :: "int \<Rightarrow> dewlock_state \<Rightarrow> bool" where
  "not_unlocked c s \<longleftrightarrow> session_lock s \<noteq> Unlocked"

lemma set_tl_subset: "set xs \<subseteq> J \<Longrightarrow> set (tl xs) \<subseteq> J"
  by (cases xs) auto

lemma locking_grows: "locking E M N J s \<Longrightarrow> grows s s' \<Longrightarrow> inv E M N {} s' \<Longrightarrow> locking E M N J s'"
  by (simp add: locking_def pre_def grows_def loop_grows_def control_def)

lemma keeps_locking:
  assumes "keeps E M N {} s m" "locking E M N J s"
  shows "run_all (locking E M N J) not_unlocked m"
proof (rule run_all_mono)
  show "run_all (\<lambda>s'. inv E M N {} s' \<and> grows s s') (fin (session_lock s)) m" using assms(1) by (simp add: keeps_def)
  show "locking E M N J s'" if "inv E M N {} s' \<and> grows s s'" for s' using locking_grows [OF assms(2)] that by blast
  have "session_lock s = LockRequested" using assms(2) by (simp add: locking_def pre_def)
  then show "not_unlocked c s'" if "fin (session_lock s) c s'" for c s' using that by (simp add: fin_def not_unlocked_def)
qed

lemma dispatch_keeps:
  assumes I: "inv E M N {} s" and L: "session_lock s \<noteq> Unlocked"
  shows "run_all (\<lambda>s'. inv E M N {} s' \<and> grows (s\<lparr>inbox := tl (inbox s)\<rparr>) s') not_unlocked
    (display_dispatch E (Exited k) s)"
proof (cases "inbox s")
  case Nil
  then show ?thesis by (simp add: display_dispatch_def)
next
  case (Cons b rest)
  show ?thesis
  proof (cases b)
    case None
    then show ?thesis using Cons L by (simp add: display_dispatch_def not_unlocked_def)
  next
    case (Some es)
    have "keeps E M N {} (s\<lparr>inbox := rest\<rparr>) (display_dispatch E (Exited k) s)"
      using dispatch_batch_keeps [OF I Cons [unfolded Some]] .
    then show ?thesis unfolding keeps_def
      by (rule run_all_mono) (use L Cons in \<open>auto simp: fin_def not_unlocked_def\<close>)
  qed
qed

lemma dispatch_locking:
  assumes "locking E M N J s"
  shows "run_all (locking E M N J) not_unlocked (display_dispatch E (Exited k) s)"
proof -
  have I: "inv E M N {} s" "session_lock s \<noteq> Unlocked" using assms by (simp_all add: locking_def pre_def)
  have "locking E M N J s'" if "inv E M N {} s'" "grows (s\<lparr>inbox := tl (inbox s)\<rparr>) s'" for s'
    using assms that set_tl_subset [of "inbox s" J] by (simp add: locking_def pre_def grows_def loop_grows_def control_def)
  then show ?thesis by (intro run_all_mono [OF dispatch_keeps [OF I]]) auto
qed

lemma put_surface_ids: "s_id y = s_id x \<Longrightarrow> map s_id (surfaces (put_surface y s)) = map s_id (surfaces s)"
  by (simp add: put_surface_def)

lemma create_surface_ids:
  "create_surface E surf s = Running s' \<Longrightarrow> map s_id (surfaces s') = map s_id (surfaces s)"
  by (auto simp: create_surface_def Let_def put_surface_def split: if_splits)

lemma create_surfaces_locking:
  assumes "locking E M N J s" "set sids \<subseteq> s_id ` set (surfaces s)"
  shows "run_all (locking E M N J) not_unlocked (create_surfaces E sids s)"
  using assms
proof (induction sids arbitrary: s)
  case (Cons sid sids)
  have I: "inv E M N {} s" "compositor s" "subcompositor s" "session_lock s = LockRequested"
    using Cons.prems(1) by (simp_all add: locking_def pre_def)
  have "find_surface sid s \<noteq> None"
    using Cons.prems(2) by (auto simp: find_surface_def find_None_iff)
  then obtain surf where surf: "find_surface sid s = Some surf" by blast
  note k = keeps_locking [OF create_surface_keeps [OF I(1) find_surface_inv [OF I(1) surf] I(2-4)] Cons.prems(1)]
  show ?case
  proof (cases "create_surface E surf s")
    case (Running s')
    then have "set sids \<subseteq> s_id ` set (surfaces s')"
      using Cons.prems(2) create_surface_ids [OF Running] by (metis list.set_map insert_subset list.simps(15))
    then show ?thesis using k surf Running Cons.IH [of s'] by simp
  qed (use k surf in auto)
qed simp

lemma wait_locked_locking:
  "locking E M N J s \<Longrightarrow> run_all (locking E M N J) not_unlocked (wait_locked E n s)"
proof (induction n arbitrary: s)
  case (Suc n)
  show ?case using Suc by (auto intro: run_all_rbind [OF dispatch_locking])
qed simp

text \<open>The bound on the rounds is enough: each one uses up a batch.\<close>

lemma wait_locked_enough:
  assumes "locking E M N J s" "length (inbox s) < n"
  shows "wait_locked E (n + k) s = wait_locked E n s"
  using assms
proof (induction n arbitrary: s)
  case (Suc n)
  have I: "inv E M N {} s" "session_lock s \<noteq> Unlocked" using Suc.prems(1) by (simp_all add: locking_def pre_def)
  have "rbind (display_dispatch E (Exited 2) s) (wait_locked E (n + k)) =
      rbind (display_dispatch E (Exited 2) s) (wait_locked E n)"
  proof (rule rbind_cong [OF refl])
    fix s' assume r: "display_dispatch E (Exited 2) s = Running s'"
    then have l: "locking E M N J s'" using dispatch_locking [OF Suc.prems(1), of 2] by simp
    have "grows (s\<lparr>inbox := tl (inbox s)\<rparr>) s'" using dispatch_keeps [OF I, of 2] r by simp
    then have "inbox s' = tl (inbox s)" by (simp add: grows_def control_def)
    moreover have "inbox s \<noteq> []" using r by (auto simp: display_dispatch_def)
    ultimately have "length (inbox s') < n" using Suc.prems(2) by (cases "inbox s") auto
    with l show "wait_locked E (n + k) s' = wait_locked E n s'" by (rule Suc.IH)
  qed
  then show ?case by simp
qed simp

lemma main_lock_locking:
  assumes "locking (mn_env K) M N J s"
  shows "run_all (locking (mn_env K) M N J) not_unlocked (main_lock K s)"
  unfolding main_lock_def
  by (rule run_all_rbind [OF dispatch_locking [OF assms]], rule run_all_rbind [OF create_surfaces_locking])
    (auto intro: wait_locked_locking simp del: wait_locked.simps)

lemma main_globals_locking:
  assumes "pre (mn_env K) M N J NoLock s" "mn_lock_proxy K"
  shows "run_all (locking (mn_env K) M N J) not_unlocked (main_globals K s)"
proof -
  have I: "inv (mn_env K) M N {} s" "session_lock s \<noteq> Unlocked" using assms(1) by (simp_all add: pre_def)
  have "locking (mn_env K) M N J (s'\<lparr>session_lock := LockRequested\<rparr>) \<and> session_lock s' = NoLock"
    if "inv (mn_env K) M N {} s'" "grows (s\<lparr>inbox := tl (inbox s)\<rparr>) s'" "compositor s'" "subcompositor s'" for s'
  proof -
    have "timers_inv (mn_env K) {} (s'\<lparr>session_lock := LockRequested\<rparr>) = timers_inv (mn_env K) {} s'"
      by (simp add: timers_inv_def timer_slot_def cong: timer_cb.case_cong if_cong)
    then show ?thesis using assms(1) that set_tl_subset [of "inbox s" J]
      by (simp add: locking_def pre_def grows_def loop_grows_def control_def inv_simps)
  qed
  moreover have "session_lock s' = NoLock" if "grows (s\<lparr>inbox := tl (inbox s)\<rparr>) s'" for s'
    using assms(1) that by (simp add: pre_def grows_def control_def)
  ultimately show ?thesis unfolding main_globals_def using assms(2)
    by (intro run_all_rbind [OF dispatch_keeps [OF I]]) (auto simp: not_unlocked_def)
qed

section \<open>The start of the program\<close>

definition main_env_ok :: "main_env \<Rightarrow> int \<Rightarrow> int \<Rightarrow> bool" where
  "main_env_ok K M N \<longleftrightarrow> env_ok (mn_env K) \<and> ev_ndebug (mn_env K) \<and> mem_env_ok (mn_mem K) \<and> limits_ok M N \<and>
     mn_username K \<noteq> None \<and> (\<forall>p. mn_wordexp K p \<noteq> Some []) \<and> mn_loop_calloc K \<and> mn_loop_malloc K \<and> mn_lock_proxy K"

lemma cfg_path_loop_safe: "(\<And>p. wordexp p \<noteq> Some []) \<Longrightarrow> \<exists>r. cfg_path_loop wordexp readable ps = Done r"
proof (induction ps)
  case (Cons p ps)
  then show ?case by (cases "wordexp p") (auto split: list.split)
qed simp

lemma load_image_safe: "(\<And>p. wordexp p \<noteq> Some []) \<Longrightarrow> \<exists>r. load_image wordexp read_png cfg is = Done r"
  by (auto simp: load_image_def join_args_def Let_def split: option.split prod.split list.split)

lemma cfg_read_safe: "(\<And>p. wordexp p \<noteq> Some []) \<Longrightarrow> \<exists>r. cfg_read e fopen wordexp png path cfg is = Done r"
  unfolding cfg_read_def Let_def by (rule load_image_safe)

lemma main_config_safe:
  assumes "main_env_ok K M N"
  shows "\<exists>cfg imgs. main_config K s = Running (s\<lparr>config := cfg, images := imgs\<rparr>)"
proof -
  have w: "mn_wordexp K p \<noteq> Some []" for p using assms by (simp add: main_env_ok_def)
  obtain path where p: "(case o_config (cli_get K) of Some path \<Rightarrow> Done (Some path)
      | None \<Rightarrow> cfg_path (mn_wordexp K) (mn_readable K) (mn_sysconfdir K)) = Done path"
    using cfg_path_loop_safe [of "mn_wordexp K", OF w] by (cases "o_config (cli_get K)") (auto simp: cfg_path_def)
  obtain cfg imgs where "cfg_read (mn_einval K) (mn_fopen K) (mn_wordexp K) (mn_png K) path (config s) (images s)
      = Done (cfg, imgs)" using cfg_read_safe [of "mn_wordexp K", OF w] by fastforce
  with p show ?thesis by (auto simp: main_config_def)
qed

lemma main_buffers_pre:
  assumes K: "main_env_ok K M N" and inb: "inbox_ok M N inb"
    and s: "s = (state_zero inb ws rs)\<lparr>username := Some name, config := cfg, images := imgs\<rparr>"
  shows "run_all (pre (mn_env K) M N (set inb) NoLock) not_unlocked (main_buffers K s)"
proof -
  have st: "sbuf_static_ok (mn_mem K) sbuf_static_init" by (simp add: sbuf_static_ok_def sbuf_static_init_def)
  obtain res pw st' where c: "sbuf_create (mn_mem K) sbuf_static_init (password s) 1024 = Done (res, pw, st')"
    "res = OK \<longrightarrow> sbuf_zeroed pw \<and> sbuf_wf pw \<and> sb_cap pw = 1024"
    using sbuf_create_cases [OF _ st, of 1024 "password s"] K by (auto simp: main_env_ok_def)
  obtain l :: "(fd_cb, timer_cb) loop_t" where l: "loop_create (mn_loop_calloc K) (mn_loop_malloc K) = Some l"
    "loop_wf l" "timers l = []" "fd_events l = []" "length (fds l) = 10"
    using K by (simp add: main_env_ok_def loop_create_def loop_wf_def)
  have n: "not_unlocked c (t\<lparr>surfaces := x\<rparr>) = not_unlocked c t" "not_unlocked c (t\<lparr>password := y\<rparr>) = not_unlocked c t"
    for c t x y by (simp_all add: not_unlocked_def)
  have s0: "not_unlocked 1 (clk_set_time (mn_env K) t) = not_unlocked 1 t" "not_unlocked 1 s" for t
    by (simp_all add: not_unlocked_def clk_set_time_def Let_def s state_zero_def)
  define s4 where "s4 = ((clk_set_time (mn_env K) (s\<lparr>password := pw\<rparr>))\<lparr>surfaces := []\<rparr>)\<lparr>eventloop := l\<rparr>"
  have "pre (mn_env K) M N (set inb) NoLock s4" if "res = OK"
  proof -
    have "pw_repr 1024 pw []" "sb_len pw = 0"
      using c(2) that by (auto simp: pw_repr_def sbuf_text_def sbuf_zeroed_def utf8_text_def split: option.splits)
    moreover have "timers_inv (mn_env K) {} s4"
      using l K by (auto simp: timers_inv_def s4_def clk_set_time_def Let_def s state_zero_def timer_slot_def
          loop_ok_def main_env_ok_def env_ok_def slot_ok_def live_timers_def split: timer_cb.split)
    ultimately show ?thesis using K inb l
      by (auto simp: pre_def inv_def pw_inv_def screen_inv_def world_inv_def view_ok_def disp_ok_def s4_def
          clk_set_time_def Let_def s state_zero_def main_env_ok_def)
  qed
  then show ?thesis using c(1) l(1) by (simp add: main_buffers_def Let_def n s0 flip: s4_def)
qed

lemma main_init_pre:
  assumes K: "main_env_ok K M N" and inb: "inbox_ok M N inb"
  shows "run_all (pre (mn_env K) M N (set inb) NoLock) not_unlocked (main_init K (state_zero inb ws rs))"
proof -
  obtain name where name: "mn_username K = Some name" using K by (auto simp: main_env_ok_def)
  have z: "not_unlocked c (state_zero inb ws rs)"
    "(state_zero inb ws rs)\<lparr>failed_attempts := 0, images := []\<rparr> = state_zero inb ws rs" for c
    by (simp_all add: not_unlocked_def state_zero_def)
  obtain cfg imgs where c: "main_config K ((state_zero inb ws rs)\<lparr>username := Some name\<rparr>) =
      Running ((state_zero inb ws rs)\<lparr>username := Some name, config := cfg, images := imgs\<rparr>)"
    using main_config_safe [OF K] by blast
  have init: "main_init K s0 = (case fst (cli_parse (mn_cli K) (mn_args K) cli_opts) of
        CliExits c \<Rightarrow> Exited c s0
      | CliReturns result opts \<Rightarrow> (if result \<noteq> OK then Exited 1 s0
           else case mn_auth_exit K of Some c \<Rightarrow> Exited c s0
             | None \<Rightarrow> rbind (main_config K (s0\<lparr>failed_attempts := 0, images := [], username := Some name\<rparr>))
                 (main_buffers K)))" for s0
    unfolding main_init_def name Let_def option.case ..
  have b: "run_all (pre (mn_env K) M N (set inb) NoLock) not_unlocked
      (main_buffers K ((state_zero inb ws rs)\<lparr>username := Some name, config := cfg, images := imgs\<rparr>))"
    using main_buffers_pre [OF K inb refl] .
  show ?thesis unfolding init z(2) c
    by (auto simp only: rbind.simps b run_all.simps z(1) split: cli_ret.split option.split if_split)
qed

section \<open>The main loop\<close>

definition registering :: "env \<Rightarrow> int \<Rightarrow> int \<Rightarrow> wl_event list option set \<Rightarrow> fd_cb list \<Rightarrow> dewlock_state \<Rightarrow> bool" where
  "registering E M N J cbs s \<longleftrightarrow> inv E M N {} s \<and> session_lock s = LockRequested \<and> compositor s \<and> subcompositor s \<and>
     p_data (rep_pipe s) = [] \<and> set (inbox s) \<subseteq> J \<and> fd_events (eventloop s) = cbs \<and>
     length (fds (eventloop s)) = 10 \<and> (\<forall>i<length cbs. pfd_revents (fds (eventloop s) ! i) = 0)"

lemma locking_registering: "locking E M N J s \<Longrightarrow> registering E M N J [] s"
  by (simp add: locking_def pre_def registering_def)

lemma add_fd_registering:
  assumes "registering E M N J cbs s" "length cbs < 10"
  shows "\<exists>s'. add_fd K n fd cb s = Running s' \<and>
    registering E M N J (if mn_event_alloc K n then cbs @ [cb] else cbs) s'"
proof (cases "mn_event_alloc K n")
  case False
  then show ?thesis using assms(1) by (simp add: add_fd_def loop_add_fd_def)
next
  case True
  let ?l = "eventloop s"
  let ?p = "\<lparr>pfd_fd = fd, pfd_events = POLLIN, pfd_revents = 0\<rparr>"
  let ?l' = "?l\<lparr>fd_events := cbs @ [cb], fds := (fds ?l)[length cbs := ?p], fd_length := length cbs + 1\<rparr>"
  have I: "inv E M N {} s" "fd_events ?l = cbs" "length (fds ?l) = 10" using assms(1) by (simp_all add: registering_def)
  then have wf: "loop_wf ?l" by (simp add: inv_def timers_inv_def loop_ok_def)
  then have n: "fd_length ?l = length cbs" "fd_capacity ?l = 10" using I by (simp_all add: loop_wf_def)
  have l': "loop_add_fd True True ?l fd POLLIN cb = Done ?l'"
    using n I assms(2) by (simp add: loop_add_fd_def buf_write_def)
  have "inv E M N {} (set_eventloop (\<lambda>_. ?l') s)"
    using wf n I assms(2) by (intro inv_table) (auto simp: loop_wf_def)
  then have "registering E M N J (cbs @ [cb]) (s\<lparr>eventloop := ?l'\<rparr>)"
    using assms by (auto simp: registering_def set_eventloop_def nth_list_update less_Suc_eq)
  then show ?thesis using True l' by (simp add: add_fd_def)
qed

definition ready :: "env \<Rightarrow> int \<Rightarrow> int \<Rightarrow> dewlock_state \<Rightarrow> bool" where
  "ready E M N s \<longleftrightarrow> inv E M N {} s \<and> session_lock s = LockRequested"

lemma ready_run: "registering E M N J cbs s \<Longrightarrow> ready E M N (s\<lparr>run_display := True\<rparr>)"
  by (simp add: registering_def ready_def inv_simps)

lemma main_register_ready:
  assumes "locking (mn_env K) M N J s"
  shows "\<exists>s'. main_register K s = Running s' \<and> ready (mn_env K) M N s' \<and>
    ((\<forall>n. mn_event_alloc K n) \<longrightarrow> None \<notin> J \<longrightarrow> calm_ok (mn_env K) M N LockRequested s')"
proof -
  let ?E = "mn_env K"
  note r0 = locking_registering [OF assms]
  define c1 where "c1 = (if mn_event_alloc K 0 then [] @ [DisplayIn] else [])"
  define c2 where "c2 = (if mn_event_alloc K 1 then c1 @ [ReplyIn] else c1)"
  define c3 where "c3 = (if mn_event_alloc K 2 then c2 @ [TermIn] else c2)"
  obtain s1 where s1: "add_fd K 0 (mn_display_fd K) DisplayIn s = Running s1" "registering ?E M N J c1 s1"
    using add_fd_registering [OF r0] unfolding c1_def by fastforce
  have n: "length c1 < 10" "length c2 < 10" by (simp_all add: c1_def c2_def)
  obtain s2 where s2: "add_fd K 1 (mn_reply_fd K) ReplyIn s1 = Running s2" "registering ?E M N J c2 s2"
    using add_fd_registering [OF s1(2) n(1)] unfolding c2_def by blast
  obtain s3 where s3: "add_fd K 2 (mn_sigusr_fd K) TermIn s2 = Running s3" "registering ?E M N J c3 s3"
    using add_fd_registering [OF s2(2) n(2)] unfolding c3_def by blast
  let ?s4 = "clk_schedule_timer ?E s3"
  have i3: "inv ?E M N {} s3" using s3(2) by (simp add: registering_def)
  have "registering ?E M N J c3 ?s4"
    using s3(2) clk_schedule_timer_keeps [OF i3]
    by (simp add: registering_def grows_def loop_grows_def control_def)
  moreover have "c3 = fd_table" if "\<forall>n. mn_event_alloc K n"
    using that by (simp add: c1_def c2_def c3_def fd_table_def)
  ultimately show ?thesis using s1(1) s2(1) s3(1) ready_run [of ?E M N J c3 ?s4]
    by (auto simp: main_register_def calm_ok_def calm_def ready_def registering_def fd_table_def Let_def inv_simps)
qed

text \<open>The end of the loop: with \<open>run_display\<close> off no handler uses the destroyed lock.\<close>

lemma cleanup_safe:
  assumes "inv E M N {} s" "\<not> run_display s"
  shows "run_all (\<lambda>_. False) (\<lambda>c s'. True) (cleanup E r s)"
proof -
  define s1 where "s1 = (clk_cancel_timer s)\<lparr>session_lock := Unlocked\<rparr>"
  note T = invD(3) [OF assms(1)]
  have "timers_inv E {} (clk_cancel_timer s)"
    by (rule cancel_inv(1) [OF T, where cb = SetTime])
      (use invD(7) [OF assms(1)] in \<open>auto simp: clk_cancel_timer_def timer_slot_def split: timer_cb.split\<close>)
  then have "timers_inv E {} s1"
    by (simp add: s1_def timers_inv_def timer_slot_def cong: timer_cb.case_cong if_cong)
  then have I: "inv E M N {} s1"
    using assms by (auto simp: s1_def inv_simps clk_cancel_timer_def)
  show ?thesis
  proof (cases "inbox s1")
    case Nil
    then show ?thesis by (simp add: cleanup_def display_dispatch_def flip: s1_def)
  next
    case (Cons b rest)
    show ?thesis
    proof (cases b)
      case None
      then show ?thesis using Cons by (simp add: cleanup_def display_dispatch_def flip: s1_def)
    next
      case (Some es)
      have "run_all (\<lambda>_. True) (\<lambda>_ _. True) (display_dispatch E Running s1)"
        using dispatch_batch_keeps [OF I Cons [unfolded Some]] unfolding keeps_def by (rule run_all_mono) simp_all
      then show ?thesis unfolding cleanup_def s1_def [symmetric] by (rule run_all_rbind) simp
    qed
  qed
qed

definition tick_ok :: "tick \<Rightarrow> bool" where
  "tick_ok tk \<longleftrightarrow> tk_flush tk \<and> (\<forall>ms. pr_ret (tk_poll tk ms) \<noteq> PollErr)"

definition tick_calm :: "tick \<Rightarrow> bool" where
  "tick_calm tk \<longleftrightarrow> tick_ok tk \<and> (\<forall>x\<in>set (tk_replies tk). x = 0) \<and> (\<forall>ms. pr_revents (tk_poll tk ms) 2 = 0)"

lemma deliver_inv: "inv E M N X (deliver bs s) = inv E M N X s"
  by (simp add: deliver_def inv_simps)

lemma main_iter_ok:
  assumes "tick_ok tk"
  shows "main_iter E tk r s =
    (OK, False, snd (loop_poll (ev_loop E) (tk_poll tk) eventloop set_eventloop (run_fd E) (run_timer E) s))"
  using assms by (simp add: main_iter_def tick_ok_def loop_poll_def Let_def split: prod.split)

lemma main_loop_off: "\<not> run_display s \<Longrightarrow> main_loop E tks r s = cleanup E r s"
  by (simp add: main_loop.simps)

lemma main_loop_nil: "run_display s \<Longrightarrow> main_loop E [] r s = Waiting"
  by (simp add: main_loop.simps)

lemma main_loop_tick:
  "run_display s \<Longrightarrow> tick_ok tk \<Longrightarrow> main_loop E (tk # tks) r s =
     rbind (snd (loop_poll (ev_loop E) (tk_poll tk) eventloop set_eventloop (run_fd E) (run_timer E)
        (deliver (tk_replies tk) s))) (main_loop E tks OK)"
  by (simp add: main_loop.simps [of E "tk # tks"] main_iter_ok)

lemma main_loop_safe:
  assumes "ready E M N s" "list_all tick_ok tks"
  shows "run_all (\<lambda>_. False) (\<lambda>_ _. True) (main_loop E tks r s)"
  using assms
proof (induction tks arbitrary: r s)
  case Nil
  then show ?case using cleanup_safe
    by (cases "run_display s") (auto simp: ready_def main_loop_off main_loop_nil)
next
  case (Cons tk tks)
  show ?case
  proof (cases "run_display s")
    case False
    then show ?thesis using cleanup_safe Cons.prems(1) by (auto simp: ready_def main_loop_off)
  next
    case True
    let ?m = "snd (loop_poll (ev_loop E) (tk_poll tk) eventloop set_eventloop (run_fd E) (run_timer E) (deliver (tk_replies tk) s))"
    have "inv E M N {} (deliver (tk_replies tk) s) \<and> session_lock (deliver (tk_replies tk) s) = LockRequested"
      using Cons.prems(1) by (simp add: ready_def deliver_inv) (simp add: deliver_def)
    from dewlock.loop_poll_inv [OF this TrueI]
    have "run_all (ready E M N) (\<lambda>_ _. True) ?m" by (rule run_all_mono) (simp_all add: ready_def)
    then have "run_all (\<lambda>_. False) (\<lambda>_ _. True) (rbind ?m (main_loop E tks OK))"
      by (rule run_all_rbind) (use Cons in simp)
    then show ?thesis using True Cons.prems(2) by (simp add: main_loop_tick)
  qed
qed

lemma deliver_calm:
  "calm_ok E M N L s \<Longrightarrow> \<forall>x\<in>set bs. x = 0 \<Longrightarrow> calm_ok E M N L (deliver bs s)"
  by (auto simp: calm_ok_def deliver_inv) (auto simp: deliver_def calm_def Let_def)

lemma main_loop_locked:
  assumes "calm_ok E M N L s" "list_all tick_calm tks"
  shows "run_all (\<lambda>_. False) (fin L) (main_loop E tks r s)"
  using assms
proof (induction tks arbitrary: r s)
  case Nil
  then show ?case by (simp add: calm_ok_def calm_def main_loop_nil)
next
  case (Cons tk tks)
  let ?s = "deliver (tk_replies tk) s"
  let ?m = "snd (loop_poll (ev_loop E) (tk_poll tk) eventloop set_eventloop (run_fd E) (run_timer E) ?s)"
  have tk: "tick_ok tk" "\<forall>x\<in>set (tk_replies tk). x = 0" "\<And>ms. pr_revents (tk_poll tk ms) 2 = 0"
    using Cons.prems(2) by (simp_all add: tick_calm_def)
  have "run_all (calm_ok E M N L) (fin L) ?m"
    using calm_dewlock.loop_poll_inv [OF deliver_calm [OF Cons.prems(1) tk(2)] tk(3)] .
  then have "run_all (\<lambda>_. False) (fin L) (rbind ?m (main_loop E tks OK))"
    by (rule run_all_rbind) (use Cons in simp)
  moreover have "run_display s" using Cons.prems(1) by (simp add: calm_ok_def calm_def)
  ultimately show ?case using tk(1) by (simp add: main_loop_tick)
qed

section \<open>A success ends the loop\<close>

lemma auth_read_reply_arrives:
  "p_data p = x # bs \<Longrightarrow>
     auth_read_reply (replicate k RIntr @ RChunk j # rs) p old = Done (OK, x \<noteq> 0, p\<lparr>p_data := bs\<rparr>, rs)"
proof -
  assume p: "p_data p = x # bs"
  have "read_full_loop (replicate k RIntr @ RChunk j # rs) p [y] 1 0 = Done (1, [x], p\<lparr>p_data := bs\<rparr>, rs)" for y
  proof (induction k)
    case 0
    have "read_full_loop rs q dst 1 1 = Done (1, dst, q, rs)" for q dst by (simp add: read_full_loop_done)
    then show ?case using p by (simp add: buf_store_def)
  qed simp
  then show ?thesis by (simp add: auth_read_reply_def read_full_def)
qed

definition success_seen :: "dewlock_state \<Rightarrow> pipe_t \<Rightarrow> read_event list \<Rightarrow> dewlock_state" where
  "success_seen s p rs = s\<lparr>rep_pipe := p, reads := rs, run_display := False\<rparr>"

text \<open>What \<^verbatim>\<open>poll\<close> reports when only a verdict has arrived.\<close>

definition only_reply :: "tick \<Rightarrow> bool" where
  "only_reply tk \<longleftrightarrow> tick_ok tk \<and> (\<forall>ms i. pr_revents (tk_poll tk ms) i = (if i = 1 then POLLIN else 0))"

definition no_timer_due :: "env \<Rightarrow> dewlock_state \<Rightarrow> bool" where
  "no_timer_due E s \<longleftrightarrow> (\<forall>t\<in>set (timers (eventloop s)). \<forall>n. \<not> t_expiry t < le_clock (ev_loop E) n)"

definition listening :: "dewlock_state \<Rightarrow> bool" where
  "listening s \<longleftrightarrow> run_display s \<and> fd_events (eventloop s) = fd_table \<and> pfd_events (fds (eventloop s) ! 1) = POLLIN"

lemma dispatch_only_reply:
  assumes s: "fd_events (eventloop s) = fd_table" "2 < length (fds (eventloop s))"
    "pfd_revents (fds (eventloop s) ! 0) = 0" "pfd_revents (fds (eventloop s) ! 1) = POLLIN"
    "pfd_revents (fds (eventloop s) ! 2) = 0" "pfd_events (fds (eventloop s) ! 1) = POLLIN"
    and r: "p_data (rep_pipe s) = x # bs" "x \<noteq> 0" "reads s = replicate k RIntr @ RChunk j # rs"
  shows "dispatch_fds eventloop (run_fd E) 4 0 s = Running (success_seen s ((rep_pipe s)\<lparr>p_data := bs\<rparr>) rs)"
proof -
  let ?t = "success_seen s ((rep_pipe s)\<lparr>p_data := bs\<rparr>) rs"
  have m: "POLLIN AND (POLLIN OR POLLHUP OR POLLERR) \<noteq> 0" "POLLIN AND POLLIN \<noteq> (0 :: mask)"
    by (simp_all add: POLLIN_def POLLHUP_def POLLERR_def)
  have reply: "reply_in E POLLIN s = Running ?t"
    using m(2) auth_read_reply_arrives [OF r(1), of k j rs False] r
    by (simp add: reply_in_def success_seen_def Let_def)
  have e: "eventloop ?t = eventloop s" by (simp add: success_seen_def)
  note s = s [unfolded numeral_2_eq_2 One_nat_def]
  have "dispatch_fds eventloop (run_fd E) (Suc (Suc 0)) (Suc (Suc 0)) ?t = Running ?t"
    using s by (simp add: e fd_table_def)
  then have "dispatch_fds eventloop (run_fd E) (Suc (Suc (Suc 0))) (Suc 0) s = Running ?t"
    using s m reply by (simp add: dispatch_fds.simps(2) [of _ _ _ "Suc 0"] fd_table_def run_fd_def del: dispatch_fds.simps)
  moreover have "fds (eventloop s) \<noteq> []" using s(2) by auto
  ultimately show ?thesis using s
    by (simp add: dispatch_fds.simps(2) [of _ _ _ 0] fd_table_def eval_nat_numeral del: dispatch_fds.simps)
qed

lemma success_round:
  assumes R: "ready E M N s" "listening s" "no_timer_due E s" and tk: "only_reply tk"
    and r: "p_data (rep_pipe s) = x # bs" "x \<noteq> 0" "reads s = replicate k RIntr @ RChunk j # rs"
  shows "\<exists>s'. main_iter E tk res s = (OK, False, Running s') \<and> ready E M N s' \<and> \<not> run_display s' \<and> inbox s' = inbox s"
proof -
  obtain ms l1 where t: "loop_timeout (ev_loop E) (eventloop s) = (ms, l1)" by fastforce
  define n where "n = calls l1"
  have l1: "l1 = eventloop s\<lparr>calls := n\<rparr>"
    using t by (auto simp: loop_timeout_def n_def Let_def split: if_splits)
  define rev where "rev = pr_revents (tk_poll tk ms)"
  define s2 where "s2 = set_eventloop (set_revents rev) (set_eventloop (\<lambda>_. l1) s)"
  have I: "inv E M N {} s" "session_lock s = LockRequested" using R(1) by (simp_all add: ready_def)
  have "inv E M N {} (set_eventloop (\<lambda>l. l\<lparr>calls := n\<rparr>) s)" by (rule inv_table [OF I(1)]) (auto simp: loop_wf_def)
  then have "inv E M N {} (set_eventloop (\<lambda>_. l1) s)" by (simp add: l1 set_eventloop_def)
  then have i2: "inv E M N {} s2" unfolding s2_def by (rule inv_table) (auto simp: loop_wf_def set_revents_def)
  have wf: "loop_wf (eventloop s)" using I(1) by (simp add: inv_def timers_inv_def loop_ok_def)
  have tab: "fd_events (eventloop s) = fd_table" "pfd_events (fds (eventloop s) ! 1) = POLLIN"
    using R(2) by (simp_all add: listening_def)
  have len: "2 < fd_length (eventloop s)" "2 < length (fds (eventloop s))"
    using wf tab(1) by (simp_all add: loop_wf_def fd_table_def)
  have fds: "fds (eventloop s2) ! i = (fds (eventloop s) ! i)\<lparr>pfd_revents := rev i\<rparr>" if "i < 3" for i
    using that len by (simp add: s2_def set_eventloop_def l1 set_revents_def nth_enumerate_eq)
  have rv: "rev i = (if i = 1 then POLLIN else 0)" for i using tk by (simp add: rev_def only_reply_def)
  have f2: "fd_events (eventloop s2) = fd_table" "length (fds (eventloop s2)) = length (fds (eventloop s))"
    "rep_pipe s2 = rep_pipe s" "reads s2 = reads s" "timers (eventloop s2) = timers (eventloop s)"
    "session_lock s2 = LockRequested" "inbox s2 = inbox s"
    using tab I by (simp_all add: s2_def set_eventloop_def l1 set_revents_def)
  let ?s3 = "success_seen s2 ((rep_pipe s2)\<lparr>p_data := bs\<rparr>) rs"
  have "dispatch_fds eventloop (run_fd E) 4 0 s2 = Running ?s3"
    by (rule dispatch_only_reply) (use f2 len fds [of 0] fds [of 1] fds [of 2] rv r tab in simp_all)
  then have d: "dispatch_fds eventloop (run_fd E) (Suc (length (fd_events (eventloop s2)))) 0 s2 = Running ?s3"
    by (simp add: f2(1) fd_table_def eval_nat_numeral del: dispatch_fds.simps)
  have i3: "inv E M N {} ?s3 \<and> session_lock ?s3 = LockRequested"
    using i2 f2 by (simp add: success_seen_def inv_simps)
  have "\<exists>s'. loop_poll (ev_loop E) (tk_poll tk) eventloop set_eventloop (run_fd E) (run_timer E) s = (OK, Running s') \<and>
      (inv E M N {} s' \<and> session_lock s' = LockRequested) \<and> (\<not> run_display s' \<and> inbox s' = inbox s)"
    using R(3) f2(5,7)
    by (intro dewlock.loop_poll_quiet [where poll = "tk_poll tk" and r = "tk_poll tk ms",
            OF t refl _ s2_def [unfolded rev_def] d i3])
      (use tk in \<open>auto simp: success_seen_def no_timer_due_def set_eventloop_def only_reply_def tick_ok_def\<close>)
  then show ?thesis using tk by (auto simp: main_iter_def only_reply_def tick_ok_def ready_def)
qed

section \<open>Properties\<close>

definition demo_main :: main_env where
  "demo_main = \<lparr>mn_env = still_env, mn_mem = demo_mem,
     mn_cli = \<lparr>ce_version = ''1'', ce_sha = ''0'', ce_fopen = True, ce_fchmod = True, ce_fwrite = True\<rparr>,
     mn_args = [], mn_auth_exit = None, mn_username = Some ''joe'', mn_readable = (\<lambda>_. False),
     mn_wordexp = (\<lambda>p. Some [p]), mn_fopen = (\<lambda>_. None), mn_png = (\<lambda>_. None), mn_einval = False,
     mn_sysconfdir = ''/etc'', mn_pipe = True, mn_fcntl = True, mn_connect = True, mn_loop_calloc = True,
     mn_loop_malloc = True, mn_event_alloc = (\<lambda>_. True), mn_lock_proxy = True, mn_ready_write = True,
     mn_daemon = \<lparr>dm_pipe = True, dm_fork = FORK_CHILD, dm_chdir = True, dm_write = True, dm_read = None\<rparr>,
     mn_display_fd = 3, mn_reply_fd = 4, mn_sigusr_fd = 5\<rparr>"

lemma demo_main_ok: "main_env_ok demo_main 1920 2"
  using demo_mem_ok still_env_ok
  by (simp add: main_env_ok_def demo_main_def limits_ok_def still_env_def demo_env_def)

definition demo_inbox :: "wl_event list option list" where
  "demo_inbox = [Some [Global 1 ''wl_compositor'', Global 2 ''wl_subcompositor'', Global 3 ''wl_shm'',
     Global 4 ''ext_session_lock_manager_v1'', Global 5 ''wl_output''],
     Some [OutputScale 0 1, OutputDone 0], Some [Configure 0 800 600, Locked], Some []]"

lemma demo_inbox_ok: "inbox_ok 1920 2 demo_inbox" "None \<notin> set demo_inbox"
  by (simp_all add: inbox_ok_def demo_inbox_def event_ok_def)

definition demo_tick :: "byte list \<Rightarrow> mask \<Rightarrow> tick" where
  "demo_tick replies m = \<lparr>tk_replies = replies, tk_flush = True,
     tk_poll = (\<lambda>ms. \<lparr>pr_ret = PollOk, pr_revents = (\<lambda>i. if i = 1 then m else 0)\<rparr>)\<rparr>"

lemma demo_tick_ok: "tick_ok (demo_tick bs m)" "only_reply (demo_tick bs POLLIN)" "\<forall>x\<in>set bs. x = 0 \<Longrightarrow> tick_calm (demo_tick bs m)"
  by (simp_all add: demo_tick_def tick_ok_def only_reply_def tick_calm_def)

text \<open>The phases up to the main loop, composed.\<close>

lemma main_phases:
  assumes K: "main_env_ok K M N" "inbox_ok M N inb" and X: "\<And>c s. session_lock s \<noteq> Unlocked \<Longrightarrow> X c s"
    and r: "\<And>s. locking (mn_env K) M N (set inb) s \<Longrightarrow> run_all P X (main_run K tks s)"
  shows "run_all P X (main K tks (state_zero inb ws rs))"
proof -
  have x: "run_all Q X m" if "run_all Q not_unlocked m" for Q m
    using that by (rule run_all_mono) (simp_all add: not_unlocked_def X)
  have g: "run_all (locking (mn_env K) M N (set inb)) X (main_globals K s)"
    if "pre (mn_env K) M N (set inb) NoLock s" for s
    using main_globals_locking [OF that] K(1) by (intro x) (simp add: main_env_ok_def)
  have y: "run_all (locking (mn_env K) M N (set inb)) X (main_ready K s)"
    if "locking (mn_env K) M N (set inb) s" for s
    using that X by (simp add: main_ready_def locking_def pre_def)
  show ?thesis unfolding main_def
    by (intro run_all_rbind [OF x [OF main_init_pre [OF K]]] run_all_rbind [OF g]
        run_all_rbind [OF x [OF main_lock_locking]] run_all_rbind [OF y] r)
qed

text \<open>The state in which a run ends, if it does.\<close>

definition exit_state :: "'s run \<Rightarrow> 's option" where
  "exit_state m = (case m of Exited c s \<Rightarrow> Some s | _ \<Rightarrow> None)"

lemma exit_state_locked: "run_all P not_unlocked m \<Longrightarrow> map_option session_lock (exit_state m) \<noteq> Some Unlocked"
  by (cases m) (simp_all add: exit_state_def not_unlocked_def)





text \<open>
  When the program waits in its main loop, a success arrives and \<^verbatim>\<open>poll\<close> reports it, the
  loop ends with this round, the session is unlocked and the process ends with status 0, however
  often the \<^verbatim>\<open>read\<close> is interrupted.
\<close>

lemma success_unlocks:
  assumes "ready E M N s" "listening s" "no_timer_due E s" "p_data (rep_pipe s) = []"
    and "reads s = replicate k RIntr @ RChunk j # rs" "inbox s = Some [] # rest"
    and "only_reply tk" "tk_replies tk = [x]" "x \<noteq> 0"
  shows "\<exists>s'. main_loop E (tk # tks) r s = Exited 0 s' \<and> session_lock s' = Unlocked"
proof -
  let ?s = "deliver [x] s"
  have d: "ready E M N ?s" "listening ?s" "no_timer_due E ?s" "p_data (rep_pipe ?s) = x # []" "reads ?s = reads s"
    "inbox ?s = inbox s" "run_display s"
    using assms(1-4) deliver_inv by (simp_all add: ready_def) (simp_all add: deliver_def listening_def no_timer_due_def)
  obtain s' where s': "main_iter E tk r ?s = (OK, False, Running s')" "\<not> run_display s'" "inbox s' = inbox s"
    using success_round [OF d(1-3) assms(7) d(4) assms(9), of k j rs r] d(5,6) assms(5) by auto
  have "main_loop E (tk # tks) r s = cleanup E OK s'"
    using s'(1,2) d(7) assms(8) by (simp add: main_loop.simps [of E "tk # tks"] main_loop_off)
  moreover have "inbox (clk_cancel_timer s') = Some [] # rest" using s'(3) assms(6) by (simp add: clk_cancel_timer_def)
  ultimately show ?thesis by (simp add: cleanup_def display_dispatch_def)
qed

lemma demo_lock_ready: "ready still_env 1920 2 demo_lock" "listening demo_lock" "no_timer_due still_env demo_lock"
  "p_data (rep_pipe demo_lock) = []" "calm_ok still_env 1920 2 LockRequested demo_lock"
  using demo_lock_inv
  by (simp_all add: ready_def listening_def no_timer_due_def calm_ok_def calm_def)
    (simp_all add: demo_lock_def demo_table_def state_zero_def fd_table_def still_env_def less_timespec_def)

lemma success_unlocks_example:
  "\<exists>s'. main_loop still_env [demo_tick [1] POLLIN] OK demo_lock = Exited 0 s' \<and> session_lock s' = Unlocked"
  by (rule success_unlocks [OF demo_lock_ready(1-4) _ _ demo_tick_ok(2), of 1 0 "[]" "[]" _ 1])
    (simp_all add: demo_tick_def demo_lock_def state_zero_def)

end
