(* ===== verification/Backend.thy ===== *)
theory Backend
  imports Auth
begin

text \<open>
  What the two password checkers (\<^verbatim>\<open>src/auth-pam.c\<close>, \<^verbatim>\<open>src/auth-shadow.c\<close>) have in
  common: the state of the child process, and the contract of a loop that serves one request at
  a time. \<open>ch_hash\<close> is the static \<^verbatim>\<open>hashed_password\<close> of the shadow backend. \<open>ch_log\<close> is not in the program: it records, for each request that was verified, the
  text and the verdict. The loop of a checker ends when the schedule of its \<^verbatim>\<open>read\<close> calls is
  used up (then it has not returned), so the number of those calls plus one bounds its rounds.
\<close>

record child_t =
  ch_static :: sbuf_static
  ch_pw :: sbuf_t
  ch_hash :: sbuf_t
  ch_req :: pipe_t
  ch_rep :: pipe_t
  ch_reads :: "read_event list"
  ch_writes :: "write_event list"
  ch_calls :: nat
  ch_status_ok :: bool
  ch_log :: "(byte list \<times> bool) list"

definition verdict_byte :: "bool \<Rightarrow> byte" where
  "verdict_byte v = (if v then 1 else 0)"

definition child_start :: "sbuf_static \<Rightarrow> sbuf_t \<Rightarrow> pipe_t \<Rightarrow> pipe_t \<Rightarrow> read_event list \<Rightarrow> write_event list \<Rightarrow> child_t" where
  "child_start st hash req rep rs ws = \<lparr>ch_static = st, ch_pw = sbuf_zero, ch_hash = hash, ch_req = req, ch_rep = rep,
     ch_reads = rs, ch_writes = ws, ch_calls = 0, ch_status_ok = True, ch_log = []\<rparr>"

text \<open>The \<^verbatim>\<open>while (1)\<close> of a checker; \<open>Running\<close> is the next round.\<close>

fun rounds :: "('s \<Rightarrow> 's run) \<Rightarrow> nat \<Rightarrow> 's \<Rightarrow> 's run" where
  "rounds step 0 s = Waiting"
| "rounds step (Suc n) s = rbind (step s) (rounds step n)"

section \<open>Requests use up the schedule\<close>

lemma read_full_loop_consumes:
  "read_full_loop es p dst sz off = Done (n, d, p', es') \<Longrightarrow>
     length es' \<le> length es \<and> (off < sz \<longrightarrow> length es' < length es)"
proof (induction es arbitrary: p dst off)
  case (Cons e es)
  show ?case
  proof (cases e)
    case (RChunk k)
    then show ?thesis using Cons by (fastforce simp: comp_simps Let_def split: if_splits)
  qed (use Cons in \<open>fastforce split: if_splits\<close>)+
qed (auto split: if_splits)

lemma auth_read_request_consumes:
  assumes "auth_read_request E st es p pw = Done (res, pw', st', p', es')"
  shows "length es' < length es"
proof -
  obtain n b p1 es1 where r: "read_full es p (replicate sizeof_size_t 0) sizeof_size_t = Done (n, b, p1, es1)"
    using assms by (auto simp: auth_read_request_def comp_simps)
  then have 1: "length es1 < length es"
    using read_full_loop_consumes by (fastforce simp: read_full_def sizeof_size_t_def)
  have "length es' \<le> length es1"
    using assms r read_full_loop_consumes
    by (fastforce simp: auth_read_request_def comp_simps Let_def read_full_def split: if_splits option.splits)
  with 1 show ?thesis by simp
qed

text \<open>Only requests that are well formed are verified, and then the buffer is a live one.\<close>

lemma auth_read_request_OK:
  assumes E: "mem_env_ok E" and st: "sbuf_static_ok E st"
    and r: "auth_read_request E st es p pw = Done (OK, pw', st', p', es')"
  shows "sbuf_wf pw' \<and> sbuf_static_ok E st' \<and> (\<exists>a b. sb_buf pw' = Some (a, b) \<and> a mod me_pagesize E = 0) \<and>
    p_open p' = p_open p"
proof -
  obtain n sb p1 es1 where r1: "read_full es p (replicate sizeof_size_t 0) sizeof_size_t = Done (n, sb, p1, es1)"
    and n: "0 < n" "le_value sb \<noteq> 0"
    using r by (auto simp: auth_read_request_def comp_simps Let_def split: if_splits)
  let ?sz = "le_value sb"
  have p1: "p_open p1 = p_open p" using read_full_cases [OF r1] n by (auto simp: sizeof_size_t_def)
  obtain res pw1 st1 where c: "sbuf_create E st pw ?sz = Done (res, pw1, st1)" "sbuf_static_ok E st1"
    "res = OK \<and> sbuf_zeroed pw1 \<and> sb_cap pw1 = ?sz \<and> (\<exists>a b. sb_buf pw1 = Some (a, b) \<and> a mod me_pagesize E = 0)
     \<or> res \<in> {ERR_SBUF_ALLOC, ERR_SBUF_LOCK}"
    using sbuf_create_cases [OF E st, of ?sz pw] n(2) by auto
  then have ok: "res = OK" using r r1 n by (auto simp: auth_read_request_def Let_def split: if_splits)
  then obtain a b where b: "sb_buf pw1 = Some (a, b)" "length b = ?sz" "a mod me_pagesize E = 0" "sb_cap pw1 = ?sz"
    using c by (auto simp: sbuf_zeroed_def split: option.splits)
  obtain m b' p2 es2 where r2: "read_full es1 p1 b ?sz = Done (m, b', p2, es2)" "0 < m"
    "buf_read b' (?sz - 1) 1 = Done [0]" "pw' = pw1\<lparr>sb_buf := Some (a, b'), sb_len := ?sz - 1\<rparr>" "st' = st1" "p' = p2"
    using r r1 n c ok b by (auto simp: auth_read_request_def Let_def comp_simps split: if_splits)
  have m: "length b' = ?sz" "p_open p2 = p_open p1" using read_full_cases [OF r2(1) b(2)] n(2) r2(2) by auto
  have "drop (?sz - 1) b' = [0]" using r2(3) n(2) m(1) by (simp add: buf_read_def)
  then have "b' ! (?sz - 1) = 0" using hd_drop_conv_nth [of "?sz - 1" b'] n(2) m(1) by simp
  then show ?thesis using m p1 b c(2) n(2) r2(4-6) by (simp add: sbuf_wf_def)
qed

lemma sbuf_wf_cstr: "sbuf_wf pw \<Longrightarrow> sb_buf pw = Some (a, b) \<Longrightarrow> cstr b = cstr (sbuf_text pw)"
  by (simp add: sbuf_wf_def sbuf_text_def cstr_take)

section \<open>The contract of a checker\<close>

text \<open>
  One round: requests that were verified are logged, and what goes to the reply pipe are the
  verdicts of those requests, at most the last one missing because its write failed.
\<close>

definition served :: "child_t \<Rightarrow> child_t \<Rightarrow> bool" where
  "served c c' \<longleftrightarrow> p_open (ch_rep c') = p_open (ch_rep c) \<and>
     (\<exists>new out. ch_log c' = ch_log c @ new \<and> p_data (ch_rep c') = p_data (ch_rep c) @ out \<and>
        (out = map (\<lambda>(t, v). verdict_byte v) new \<or> out = map (\<lambda>(t, v). verdict_byte v) (butlast new)))"

lemma reply_served:
  assumes "auth_write_reply ws (ch_rep c) v = Done (r, rep, ws')"
    "ch_log c' = ch_log c @ [(t, v)]" "ch_rep c' = rep"
  shows "served c c'"
  using auth_write_reply_data [OF assms(1)] assms(2,3)
  by (auto simp: served_def verdict_byte_def intro!: exI [of _ "[(t, v)]"])

lemma served_same: "ch_log c' = ch_log c \<Longrightarrow> ch_rep c' = ch_rep c \<Longrightarrow> served c c'"
  by (simp add: served_def)

definition accepted :: "child_t \<Rightarrow> bool" where
  "accepted c \<longleftrightarrow> (\<exists>t. (t, True) \<in> set (ch_log c))"

text \<open>Only texts that satisfy \<open>good\<close> were accepted.\<close>

definition honest :: "(byte list \<Rightarrow> bool) \<Rightarrow> child_t \<Rightarrow> bool" where
  "honest good c \<longleftrightarrow> (\<forall>t. (t, True) \<in> set (ch_log c) \<longrightarrow> good t)"

lemma honest_start: "honest good (child_start st hash req rep rs ws)"
  by (simp add: honest_def child_start_def)

text \<open>
  \<open>ok\<close> is the state of a checker between rounds, which does not depend on what is in the pipes,
  and \<open>good\<close> says which texts it may accept.
\<close>

locale checker =
  fixes step :: "child_t \<Rightarrow> child_t run" and ok :: "child_t \<Rightarrow> bool" and good :: "byte list \<Rightarrow> bool"
  assumes consumes: "ok c \<Longrightarrow> step c = Running c' \<Longrightarrow> length (ch_reads c') < length (ch_reads c)"
    and keeps_ok: "ok c \<Longrightarrow> step c = Running c' \<Longrightarrow> ok c'"
    and no_crash: "ok c \<Longrightarrow> step c \<noteq> Crashed"
    and running_served: "ok c \<Longrightarrow> step c = Running c' \<Longrightarrow> served c c'"
    and exited_served: "ok c \<Longrightarrow> step c = Exited e c' \<Longrightarrow> served c c'"
    and running_honest: "ok c \<Longrightarrow> step c = Running c' \<Longrightarrow> honest good c \<Longrightarrow> honest good c'"
    and exited_honest: "ok c \<Longrightarrow> step c = Exited e c' \<Longrightarrow> honest good c \<Longrightarrow> honest good c'"
    and ok_pipes: "ok c \<Longrightarrow> ok (c\<lparr>ch_req := p, ch_rep := q\<rparr>)"
begin

text \<open>The bound on the rounds is enough: more rounds change nothing.\<close>

lemma rounds_enough:
  "ok c \<Longrightarrow> length (ch_reads c) < n \<Longrightarrow> rounds step (n + k) c = rounds step n c"
proof (induction n arbitrary: c)
  case (Suc n)
  show ?case
  proof (cases "step c")
    case (Running c')
    then have "length (ch_reads c') < n" "ok c'" using Suc.prems consumes [of c c'] keeps_ok by auto
    then show ?thesis using Running Suc.IH by simp
  qed simp_all
qed simp

lemma rounds_no_crash: "ok c \<Longrightarrow> rounds step n c \<noteq> Crashed"
proof (induction n arbitrary: c)
  case (Suc n)
  then show ?case using no_crash [of c] keeps_ok [of c] by (cases "step c") auto
qed simp

text \<open>A success that can be read from the reply pipe is the verdict on some request.\<close>

lemma served_honest:
  assumes "served c c'" "(\<exists>x\<in>set (p_data (ch_rep c)). x \<noteq> 0) \<Longrightarrow> accepted c"
  shows "(\<exists>x\<in>set (p_data (ch_rep c')). x \<noteq> 0) \<Longrightarrow> accepted c'" "accepted c \<Longrightarrow> accepted c'"
proof -
  obtain new out where n: "ch_log c' = ch_log c @ new" "p_data (ch_rep c') = p_data (ch_rep c) @ out"
    "out = map (\<lambda>(t, v). verdict_byte v) new \<or> out = map (\<lambda>(t, v). verdict_byte v) (butlast new)"
    using assms(1) by (auto simp: served_def)
  show keep: "accepted c \<Longrightarrow> accepted c'" using n(1) by (auto simp: accepted_def)
  have "\<exists>t. (t, True) \<in> set new" if "x \<in> set out" "x \<noteq> 0" for x
    using n(3) that by (fastforce simp: verdict_byte_def dest!: in_set_butlastD split: if_splits)
  then show "\<exists>x\<in>set (p_data (ch_rep c')). x \<noteq> 0 \<Longrightarrow> accepted c'"
    using n(1,2) assms(2) unfolding accepted_def by (metis Un_iff set_append)
qed

end

end
