(* ===== verification/Auth_Pam.thy ===== *)
theory Auth_Pam
  imports Backend Strings
begin

text \<open>
  \<^verbatim>\<open>src/auth-pam.c\<close>: the checker that asks PAM. The PAM library is not modelled; what
  \<^verbatim>\<open>pam_authenticate\<close> does with the conversation function is a parameter, a \<open>pam_dialog\<close>: it
  ends with a status, or asks with an array of messages and goes on with the answer. The
  dialog also says whether the allocations of the conversation succeed. The password is the
  buffer of the request, a C string.
\<close>

section \<open>Conversation\<close>

datatype msg_style = PAM_PROMPT_ECHO_OFF | PAM_PROMPT_ECHO_ON | PAM_ERROR_MSG | PAM_TEXT_INFO

datatype pam_status =
    PAM_SUCCESS | PAM_ABORT | PAM_AUTH_ERR | PAM_CRED_INSUFFICIENT | PAM_AUTHINFO_UNAVAIL | PAM_MAXTRIES
  | PAM_OTHER int

text \<open>The loop over the messages: \<open>resp\<close> is the array of responses, \<open>pw\<close> the password not yet given.\<close>

fun conv_loop ::
  "(nat \<Rightarrow> bool) \<Rightarrow> nat \<Rightarrow> msg_style list \<Rightarrow> byte list option list \<Rightarrow> byte list option
     \<Rightarrow> pam_status \<times> byte list option list \<times> byte list option" where
  "conv_loop strdup_ok i [] resp pw = (PAM_SUCCESS, resp, pw)"
| "conv_loop strdup_ok i (m # ms) resp pw =
     (if m = PAM_PROMPT_ECHO_OFF \<or> m = PAM_PROMPT_ECHO_ON then
        (case pw of
           None \<Rightarrow> (PAM_ABORT, resp, pw)
         | Some b \<Rightarrow>
             (if \<not> strdup_ok i then (PAM_ABORT, resp, pw)
              else conv_loop strdup_ok (Suc i) ms (resp[i := Some (cstr b)]) None))
      else conv_loop strdup_ok (Suc i) ms resp pw)"

definition handle_conversation ::
  "bool \<Rightarrow> (nat \<Rightarrow> bool) \<Rightarrow> msg_style list \<Rightarrow> byte list option
     \<Rightarrow> pam_status \<times> byte list option list option \<times> byte list option" where
  "handle_conversation calloc_ok strdup_ok msgs pw =
     (if \<not> calloc_ok then (PAM_ABORT, None, pw)
      else (let (st, resp, pw') = conv_loop strdup_ok 0 msgs (replicate (length msgs) None) pw
            in (st, Some resp, pw')))"

datatype pam_dialog =
    PamDone pam_status
  | PamAsk "msg_style list" bool "nat \<Rightarrow> bool" "pam_status \<times> byte list option list option \<Rightarrow> pam_dialog"

text \<open>The status, the password that is left, and all responses that were given.\<close>

primrec run_dialog :: "pam_dialog \<Rightarrow> byte list option \<Rightarrow> pam_status \<times> byte list option \<times> byte list list" where
  "run_dialog (PamDone st) pw = (st, pw, [])"
| "run_dialog (PamAsk msgs calloc_ok strdup_ok k) pw =
     (let (st, resp, pw') = handle_conversation calloc_ok strdup_ok msgs pw;
          (st', pw'', given) = run_dialog (k (st, resp)) pw'
      in (st', pw'', (case resp of None \<Rightarrow> [] | Some r \<Rightarrow> map the (filter (\<lambda>x. x \<noteq> None) r)) @ given))"

definition pam_number :: "pam_status \<Rightarrow> int" where
  "pam_number st = (case st of PAM_SUCCESS \<Rightarrow> 0 | PAM_ABORT \<Rightarrow> 26 | PAM_AUTH_ERR \<Rightarrow> 7 | PAM_CRED_INSUFFICIENT \<Rightarrow> 8
     | PAM_AUTHINFO_UNAVAIL \<Rightarrow> 9 | PAM_MAXTRIES \<Rightarrow> 11 | PAM_OTHER n \<Rightarrow> n)"

definition get_pam_auth_error :: "pam_status \<Rightarrow> string" where
  "get_pam_auth_error st =
     (case st of
        PAM_AUTH_ERR \<Rightarrow> ''invalid credentials''
      | PAM_CRED_INSUFFICIENT \<Rightarrow>
          ''dewlock cannot authenticate users; check /etc/pam.d/dewlock has been installed properly''
      | PAM_AUTHINFO_UNAVAIL \<Rightarrow> ''authentication information unavailable''
      | PAM_MAXTRIES \<Rightarrow> ''maximum number of authentication tries exceeded''
      | _ \<Rightarrow> snprintf_to 64 (''unknown error ('' @ print_int (pam_number st) @ '')''))"

section \<open>The checker\<close>

record pam_env =
  pe_mem :: mem_env
  pe_username :: "string option"
  pe_start :: bool
  pe_authenticate :: "nat \<Rightarrow> pam_dialog"
  pe_end :: bool

text \<open>After the loop; \<open>ch_status_ok\<close> says that the last status is success.\<close>

definition pam_finish :: "pam_env \<Rightarrow> child_t \<Rightarrow> child_t run" where
  "pam_finish P c = (if \<not> pe_end P then Exited 1 c else Exited (if ch_status_ok c then 0 else 1) c)"

definition pam_step :: "pam_env \<Rightarrow> child_t \<Rightarrow> child_t run" where
  "pam_step P c =
     (case auth_read_request (pe_mem P) (ch_static c) (ch_reads c) (ch_req c) (ch_pw c) of
        Fault \<Rightarrow> Crashed
      | Blocked \<Rightarrow> Waiting
      | Done (res, pw, st, p, rs) \<Rightarrow>
          (let c1 = c\<lparr>ch_pw := pw, ch_static := st, ch_req := p, ch_reads := rs\<rparr> in
           if res = ERR_AUTH_EOF then pam_finish P c1
           else if res \<noteq> OK then Exited 1 c1
           else (let text = sbuf_text pw;
                     (status, left, given) = run_dialog (pe_authenticate P (ch_calls c)) (map_option snd (sb_buf pw));
                     success = (status = PAM_SUCCESS);
                     c2 = c1\<lparr>ch_calls := ch_calls c + 1, ch_status_ok := success,
                             ch_log := ch_log c @ [(text, success)]\<rparr>
                 in case sbuf_destroy (pe_mem P) st pw of
                      Fault \<Rightarrow> Crashed
                    | Blocked \<Rightarrow> Waiting
                    | Done (pw', freed, st') \<Rightarrow>
                        (case auth_write_reply (ch_writes c) (ch_rep c) success of
                           Fault \<Rightarrow> Crashed
                         | Blocked \<Rightarrow> Waiting
                         | Done (r, rep, ws) \<Rightarrow>
                             (let c3 = c2\<lparr>ch_pw := pw', ch_static := st', ch_rep := rep, ch_writes := ws\<rparr> in
                              if r \<noteq> OK then Exited 1 c3
                              else if success then pam_finish P c3
                              else Running c3)))))"

definition pam_auth_run :: "pam_env \<Rightarrow> child_t \<Rightarrow> child_t run" where
  "pam_auth_run P c =
     (if pe_username P = None then Exited 1 c
      else if \<not> pe_start P then Exited 1 c
      else rounds (pam_step P) (Suc (length (ch_reads c))) c)"

text \<open>Before the fork: the process must not be setuid. \<open>None\<close> means that the function exits with 1.\<close>

definition pam_auth_init :: "nat \<Rightarrow> nat \<Rightarrow> nat \<Rightarrow> nat \<Rightarrow> spawn_ret \<Rightarrow> spawn_ret option" where
  "pam_auth_init uid euid gid egid spawn =
     (if uid \<noteq> euid \<or> gid \<noteq> egid then None
      else case spawn of
        SpawnReturns res ends \<Rightarrow> (if res \<noteq> OK then None else Some spawn)
      | SpawnRunsChild ends ign \<Rightarrow> Some spawn)"

section \<open>The password is given at most once\<close>

lemma conv_loop_given:
  assumes "conv_loop f i ms resp pw = (st, resp', pw')"
    "\<forall>k\<ge>i. k < length resp \<longrightarrow> resp ! k = None" "i + length ms = length resp"
  shows "(pw' = pw \<and> resp' = resp) \<or>
    (\<exists>b j. pw = Some b \<and> pw' = None \<and> i \<le> j \<and> j < length resp \<and> resp' = resp[j := Some (cstr b)])"
  using assms
proof (induction ms arbitrary: i resp pw)
  case (Cons m ms)
  have gone: "conv_loop f j ms r None = (s, r', p') \<Longrightarrow> r' = r \<and> p' = None" for j ms r s r' p'
    by (induction ms arbitrary: j) (auto split: if_splits)
  show ?case
  proof (cases "m = PAM_PROMPT_ECHO_OFF \<or> m = PAM_PROMPT_ECHO_ON")
    case True
    then show ?thesis
      using Cons.prems gone by (cases pw) (auto split: if_splits)
  next
    case False
    then have "conv_loop f (Suc i) ms resp pw = (st, resp', pw')" using Cons.prems by simp
    from Cons.IH [OF this] Cons.prems show ?thesis by (auto dest: Suc_leD)
  qed
qed simp

lemma handle_conversation_given:
  assumes "handle_conversation c f ms pw = (st, resp, pw')"
  shows "(pw' = pw \<and> (\<forall>r. resp = Some r \<longrightarrow> filter (\<lambda>x. x \<noteq> None) r = [])) \<or>
    (\<exists>b r. pw = Some b \<and> pw' = None \<and> resp = Some r \<and> filter (\<lambda>x. x \<noteq> None) r = [Some (cstr b)])"
proof (cases c)
  case False
  then show ?thesis using assms by (simp add: handle_conversation_def)
next
  case True
  then obtain r where r: "conv_loop f 0 ms (replicate (length ms) None) pw = (st, r, pw')" "resp = Some r"
    using assms by (auto simp: handle_conversation_def split: prod.splits)
  have none: "filter (\<lambda>x. x \<noteq> None) (replicate n None) = []" for n by simp
  have one: "filter (\<lambda>x. x \<noteq> None) ((replicate n None)[j := Some b]) = [Some b]" if "j < n" for n j and b :: "byte list"
    using that by (simp add: upd_conv_take_nth_drop)
  have "(pw' = pw \<and> r = replicate (length ms) None) \<or>
    (\<exists>b j. pw = Some b \<and> pw' = None \<and> j < length ms \<and> r = (replicate (length ms) None)[j := Some (cstr b)])"
    using conv_loop_given [OF r(1)] by auto
  then show ?thesis using r(2) none one by auto
qed

lemma run_dialog_given:
  "run_dialog d pw = (st, pw', given) \<Longrightarrow>
     (pw' = pw \<and> given = []) \<or> (\<exists>b. pw = Some b \<and> pw' = None \<and> given = [cstr b])"
proof (induction d arbitrary: pw st pw' given)
  case (PamAsk ms c f k)
  obtain s1 resp p1 where h: "handle_conversation c f ms pw = (s1, resp, p1)" by (cases "handle_conversation c f ms pw")
  obtain s2 p2 g where d: "run_dialog (k (s1, resp)) p1 = (s2, p2, g)" by (cases "run_dialog (k (s1, resp)) p1")
  have res: "pw' = p2" "given = (case resp of None \<Rightarrow> [] | Some r \<Rightarrow> map the (filter (\<lambda>x. x \<noteq> None) r)) @ g"
    using PamAsk.prems h d by simp_all
  have "k (s1, resp) \<in> range k" by simp
  from PamAsk.IH [OF this d] have "(p2 = p1 \<and> g = []) \<or> (\<exists>b. p1 = Some b \<and> p2 = None \<and> g = [cstr b])" .
  then show ?case using handle_conversation_given [OF h] res by (cases resp) auto
qed simp

section \<open>The contract of a checker\<close>

definition pam_ok :: "pam_env \<Rightarrow> child_t \<Rightarrow> bool" where
  "pam_ok P c \<longleftrightarrow> mem_env_ok (pe_mem P) \<and> sbuf_static_ok (pe_mem P) (ch_static c)"

text \<open>A text is good if PAM ends with success in some dialog about it.\<close>

definition pam_good :: "pam_env \<Rightarrow> byte list \<Rightarrow> bool" where
  "pam_good P t \<longleftrightarrow> (\<exists>k b. cstr b = cstr t \<and> fst (run_dialog (pe_authenticate P k) (Some b)) = PAM_SUCCESS)"

text \<open>The ways a round can go.\<close>

lemma pam_step_cases:
  assumes "pam_ok P c"
  obtains "pam_step P c = Waiting"
    | c' e where "pam_step P c = Exited e c'" "ch_log c' = ch_log c" "ch_rep c' = ch_rep c"
    | res pw st p rs tx status left given st' r rep ws c' where
        "auth_read_request (pe_mem P) (ch_static c) (ch_reads c) (ch_req c) (ch_pw c) = Done (OK, pw, st, p, rs)"
        "tx = sbuf_text pw"
        "run_dialog (pe_authenticate P (ch_calls c)) (map_option snd (sb_buf pw)) = (status, left, given)"
        "sbuf_static_ok (pe_mem P) st'" "status = PAM_SUCCESS \<longrightarrow> pam_good P tx"
        "auth_write_reply (ch_writes c) (ch_rep c) (status = PAM_SUCCESS) = Done (r, rep, ws)"
        "c' = c\<lparr>ch_req := p, ch_reads := rs, ch_calls := ch_calls c + 1,
           ch_status_ok := (status = PAM_SUCCESS), ch_log := ch_log c @ [(tx, status = PAM_SUCCESS)],
           ch_pw := sbuf_zero, ch_static := st', ch_rep := rep, ch_writes := ws\<rparr>"
        "pam_step P c = (if r \<noteq> OK then Exited 1 c' else if status = PAM_SUCCESS then pam_finish P c' else Running c')"
proof (cases "auth_read_request (pe_mem P) (ch_static c) (ch_reads c) (ch_req c) (ch_pw c)")
  case Fault
  then show ?thesis using auth_read_request_safe assms by (simp add: pam_ok_def)
next
  case Blocked
  then show ?thesis using that(1) by (simp add: pam_step_def)
next
  case (Done x)
  obtain res pw st p rs where x: "x = (res, pw, st, p, rs)" by (cases x)
  have E: "mem_env_ok (pe_mem P)" "sbuf_static_ok (pe_mem P) (ch_static c)" using assms by (simp_all add: pam_ok_def)
  show ?thesis
  proof (cases "res = OK")
    case False
    then have "\<exists>e. pam_step P c = Exited e (c\<lparr>ch_pw := pw, ch_static := st, ch_req := p, ch_reads := rs\<rparr>)"
      using Done x by (cases "res = ERR_AUTH_EOF"; cases "pe_end P") (simp_all add: pam_step_def pam_finish_def Let_def)
    then show ?thesis using that(2) by fastforce
  next
    case True
    note ok = auth_read_request_OK [OF E Done [unfolded x True]]
    obtain st' where d: "sbuf_destroy (pe_mem P) st pw = Done (sbuf_zero, replicate (sb_cap pw) 0, st')"
      "sbuf_static_ok (pe_mem P) st'" using sbuf_destroy_wf [OF E(1), of st pw] ok by auto
    obtain status left given where a: "run_dialog (pe_authenticate P (ch_calls c)) (map_option snd (sb_buf pw)) =
        (status, left, given)" by (cases "run_dialog (pe_authenticate P (ch_calls c)) (map_option snd (sb_buf pw))")
    obtain a0 b0 where b0: "sb_buf pw = Some (a0, b0)" using ok by auto
    have g: "status = PAM_SUCCESS \<longrightarrow> pam_good P (sbuf_text pw)"
      using a sbuf_wf_cstr [OF _ b0] ok b0 unfolding pam_good_def by (auto intro!: exI [of _ b0] exI [of _ "ch_calls c"])
    show ?thesis
    proof (cases "auth_write_reply (ch_writes c) (ch_rep c) (status = PAM_SUCCESS)")
      case Fault
      then show ?thesis by (simp add: auth_write_reply_safe)
    next
      case Blocked
      then show ?thesis using that(1) Done x True a d by (simp add: pam_step_def Let_def)
    next
      case w: (Done y)
      obtain r rep ws where y: "y = (r, rep, ws)" by (cases y)
      let ?c = "c\<lparr>ch_req := p, ch_reads := rs, ch_calls := ch_calls c + 1,
           ch_status_ok := (status = PAM_SUCCESS), ch_log := ch_log c @ [(sbuf_text pw, status = PAM_SUCCESS)],
           ch_pw := sbuf_zero, ch_static := st', ch_rep := rep, ch_writes := ws\<rparr>"
      have "pam_step P c = (if r \<noteq> OK then Exited 1 ?c else if status = PAM_SUCCESS then pam_finish P ?c else Running ?c)"
        using Done x True a d w y by (simp add: pam_step_def Let_def)
      then show ?thesis using that(3) [OF Done [unfolded x True] refl a d(2) g w [unfolded y] refl] by blast
    qed
  qed
qed

interpretation pam: checker "pam_step P" "pam_ok P" "pam_good P" for P
proof unfold_locales
  fix c c' :: child_t and e :: int
  assume ok: "pam_ok P c"
  show "pam_step P c \<noteq> Crashed"
    using ok by (rule pam_step_cases) (auto simp: pam_finish_def)
  have "length (ch_reads c') < length (ch_reads c) \<and> pam_ok P c' \<and> served c c' \<and> (honest (pam_good P) c \<longrightarrow> honest (pam_good P) c')"
    if "pam_step P c = Running c'"
    by (rule pam_step_cases [OF ok]) (use that ok in \<open>auto simp: pam_finish_def pam_ok_def honest_def split: if_splits
        dest: auth_read_request_consumes intro!: reply_served\<close>)
  then show "pam_step P c = Running c' \<Longrightarrow> length (ch_reads c') < length (ch_reads c)"
    "pam_step P c = Running c' \<Longrightarrow> pam_ok P c'" "pam_step P c = Running c' \<Longrightarrow> served c c'"
    "pam_step P c = Running c' \<Longrightarrow> honest (pam_good P) c \<Longrightarrow> honest (pam_good P) c'" by blast+
  have "served c c' \<and> (honest (pam_good P) c \<longrightarrow> honest (pam_good P) c')" if "pam_step P c = Exited e c'"
    by (rule pam_step_cases [OF ok]) (use that in \<open>auto simp: pam_finish_def honest_def split: if_splits
        intro: reply_served served_same\<close>)
  then show "pam_step P c = Exited e c' \<Longrightarrow> served c c'"
    "pam_step P c = Exited e c' \<Longrightarrow> honest (pam_good P) c \<Longrightarrow> honest (pam_good P) c'" by blast+
  show "pam_ok P (c\<lparr>ch_req := p, ch_rep := q\<rparr>)" for p q using ok by (simp add: pam_ok_def)
qed

section \<open>Properties\<close>

text \<open>
  C16: in one verification the password is handed to PAM at most once, whatever PAM asks and
  however often: all answers together are empty or the password alone, exactly its bytes up to
  the terminator, and once given it is forgotten.
\<close>

theorem pam_password_given_once:
  assumes "run_dialog d (Some b) = (st, left, given)"
  shows "(given = [] \<and> left = Some b) \<or> (given = [cstr b] \<and> left = None)"
  using run_dialog_given [OF assms] by auto

definition demo_dialog :: pam_dialog where
  "demo_dialog = PamAsk [PAM_TEXT_INFO, PAM_PROMPT_ECHO_OFF] True (\<lambda>_. True)
     (\<lambda>(st, resp). PamAsk [PAM_PROMPT_ECHO_OFF] True (\<lambda>_. True) (\<lambda>(st', resp').
        PamDone (if st' = PAM_ABORT \<and> resp = Some [None, Some [104, 105]] then PAM_SUCCESS else PAM_AUTH_ERR)))"

theorem pam_password_given_once_witness:
  "run_dialog demo_dialog (Some [104, 105, 0, 9]) = (PAM_SUCCESS, None, [[104, 105]])"
proof -
  have r: "run_dialog demo_dialog (Some [104, 105, 0, 9]) = (PAM_SUCCESS, None, [[104, 105]])"
    by (simp add: demo_dialog_def handle_conversation_def cstr_def)
  show ?thesis using pam_password_given_once [OF r] r by simp
qed


definition demo_pam :: pam_env where
  "demo_pam = \<lparr>pe_mem = demo_mem, pe_username = Some ''joe'', pe_start = True, pe_authenticate = (\<lambda>_. demo_dialog),
     pe_end = True\<rparr>"

definition demo_child :: "sbuf_t \<Rightarrow> byte list \<Rightarrow> bool \<Rightarrow> read_event list \<Rightarrow> child_t" where
  "demo_child hash req opn rs = child_start sbuf_static_init hash \<lparr>p_data = req, p_open = opn\<rparr>
     \<lparr>p_data = [], p_open = True\<rparr> rs (replicate 3 (WChunk 0))"

lemma demo_pam_ok: "pam_ok demo_pam (demo_child hash req opn rs)"
  using demo_mem_ok by (simp add: pam_ok_def demo_pam_def demo_child_def child_start_def)


text \<open>
  the checker does not outlive the lock screen: when the other end of the request pipe is
  closed and no request is left, the process ends after the next \<^verbatim>\<open>read\<close> that is not
  interrupted, and no verdict is written any more.
\<close>

theorem pam_ends_with_parent:
  assumes "pe_username P \<noteq> None" "pe_start P" "p_data (ch_req c) = []" "\<not> p_open (ch_req c)"
    and "ch_reads c = replicate n RIntr @ RChunk k # rs"
  shows "\<exists>e c'. pam_auth_run P c = Exited e c' \<and> ch_rep c' = ch_rep c \<and> ch_reads c' = rs"
proof -
  have "auth_read_request (pe_mem P) (ch_static c) (ch_reads c) (ch_req c) (ch_pw c) =
      Done (ERR_AUTH_EOF, ch_pw c, ch_static c, ch_req c, rs)"
    unfolding assms(5) using assms(3,4) by (rule auth_read_request_eof)
  then show ?thesis using assms(1,2) by (auto simp: pam_auth_run_def pam_step_def pam_finish_def Let_def)
qed

theorem pam_ends_with_parent_witness:
  "\<exists>e c'. pam_auth_run demo_pam (demo_child sbuf_zero [] False [RIntr, RChunk 0]) = Exited e c' \<and> ch_reads c' = []"
  using pam_ends_with_parent [of demo_pam "demo_child sbuf_zero [] False [RIntr, RChunk 0]" 1 0 "[]"]
  by (auto simp: demo_pam_def demo_child_def child_start_def)

end
