(* ===== verification/Auth_Shadow.thy ===== *)
theory Auth_Shadow
  imports Backend Strings
begin

text \<open>
  \<^verbatim>\<open>src/auth-shadow.c\<close>: the checker that compares with the hash of the account, and the
  dropping of root. The identities of the process follow POSIX: a process whose effective user
  is root changes all three identities, another one only the effective one, to the real or the
  saved one. \<^verbatim>\<open>getpwuid\<close>, \<^verbatim>\<open>getspnam\<close> and \<^verbatim>\<open>crypt\<close> are parameters; strings are the
  bytes before the terminator. The pause of two seconds after a reply has no effect on the
  state.
\<close>

section \<open>Identities\<close>

record creds =
  ruid :: nat
  euid :: nat
  suid :: nat
  rgid :: nat
  egid :: nat
  sgid :: nat

definition setuid :: "nat \<Rightarrow> creds \<Rightarrow> int \<times> creds" where
  "setuid u c =
     (if euid c = 0 then (0, c\<lparr>ruid := u, euid := u, suid := u\<rparr>)
      else if u = ruid c \<or> u = suid c then (0, c\<lparr>euid := u\<rparr>)
      else (- 1, c))"

definition setgid :: "nat \<Rightarrow> creds \<Rightarrow> int \<times> creds" where
  "setgid g c =
     (if euid c = 0 then (0, c\<lparr>rgid := g, egid := g, sgid := g\<rparr>)
      else if g = rgid c \<or> g = sgid c then (0, c\<lparr>egid := g\<rparr>)
      else (- 1, c))"

text \<open>The condition of the code, which stops at the first call that answers the wrong way.\<close>

definition drop_root :: "creds \<Rightarrow> bool \<times> creds" where
  "drop_root c =
     (let (r1, c1) = setgid (rgid c) c in
      if r1 \<noteq> 0 then (False, c1)
      else let (r2, c2) = setuid (ruid c1) c1 in
      if r2 \<noteq> 0 then (False, c2)
      else let (r3, c3) = setuid 0 c2 in
      if r3 \<noteq> - 1 then (False, c3)
      else let (r4, c4) = setgid 0 c3 in
      (r4 = - 1, c4))"

section \<open>Before the fork\<close>

record shadow_env =
  sv_mem :: mem_env
  sv_passwd :: "(string \<times> byte list) option"
  sv_spnam :: "string \<Rightarrow> byte list option"
  sv_crypt :: "nat \<Rightarrow> byte list \<Rightarrow> byte list \<Rightarrow> byte list option"

definition hash_buffer :: "byte list \<Rightarrow> sbuf_t" where
  "hash_buffer h = \<lparr>sb_buf = Some (0, cstr h @ [0]), sb_cap = strlen h, sb_len = strlen h\<rparr>"

datatype init_ret = InitExits int | InitDone spawn_ret sbuf_t

definition shadow_auth_init :: "shadow_env \<Rightarrow> spawn_ret \<Rightarrow> creds \<Rightarrow> (init_ret \<times> creds) comp" where
  "shadow_auth_init V spawn c =
     (case sv_passwd V of
        None \<Rightarrow> Done (InitExits 1, c)
      | Some (name, passwd) \<Rightarrow>
          (case (if cstr passwd = [120] then sv_spnam V name else Some passwd) of
             None \<Rightarrow> Done (InitExits 1, c)
           | Some h \<Rightarrow>
               (let (ok, c') = drop_root c in
                if \<not> ok then Done (InitExits 1, c')
                else case spawn of
                  SpawnReturns res ends \<Rightarrow>
                    (if res \<noteq> OK then Done (InitExits 1, c')
                     else cmap (\<lambda>hash. (InitDone spawn (hash\<lparr>sb_buf := None\<rparr>), c')) (sbuf_clear (hash_buffer h)))
                | SpawnRunsChild ends ign \<Rightarrow> Done (InitDone spawn (hash_buffer h), c'))))"

section \<open>The checker\<close>

definition unsupported_hash :: "byte list option \<Rightarrow> nat \<Rightarrow> bool" where
  "unsupported_hash c len =
     (case c of None \<Rightarrow> True | Some x \<Rightarrow> (x \<noteq> [] \<and> hd x = 42) \<or> strlen x \<noteq> len)"

definition shadow_step :: "shadow_env \<Rightarrow> child_t \<Rightarrow> child_t run" where
  "shadow_step V c =
     (case auth_read_request (sv_mem V) (ch_static c) (ch_reads c) (ch_req c) (ch_pw c) of
        Fault \<Rightarrow> Crashed
      | Blocked \<Rightarrow> Waiting
      | Done (res, pw, st, p, rs) \<Rightarrow>
          (let c1 = c\<lparr>ch_pw := pw, ch_static := st, ch_req := p, ch_reads := rs\<rparr> in
           if res = ERR_AUTH_EOF then
             (case sbuf_clear (ch_hash c1) of
                Fault \<Rightarrow> Crashed
              | Blocked \<Rightarrow> Waiting
              | Done h \<Rightarrow> Exited 0 (c1\<lparr>ch_hash := h\<rparr>))
           else if res \<noteq> OK then Exited 1 c1
           else (case (sb_buf pw, sb_buf (ch_hash c)) of
               (Some (a, key), Some (b, hash)) \<Rightarrow>
                 (let r = sv_crypt V (ch_calls c) (cstr key) (cstr hash);
                      c2 = c1\<lparr>ch_calls := ch_calls c + 1\<rparr>
                  in case sbuf_destroy (sv_mem V) st pw of
                       Fault \<Rightarrow> Crashed
                     | Blocked \<Rightarrow> Waiting
                     | Done (pw', freed, st') \<Rightarrow>
                         (let c3 = c2\<lparr>ch_pw := pw', ch_static := st'\<rparr> in
                          if unsupported_hash r (sb_len (ch_hash c)) then Exited 1 c3
                          else (let success = (cstr (the r) = cstr hash);
                                    c4 = c3\<lparr>ch_log := ch_log c @ [(sbuf_text pw, success)]\<rparr>
                                in case auth_write_reply (ch_writes c) (ch_rep c) success of
                                     Fault \<Rightarrow> Crashed
                                   | Blocked \<Rightarrow> Waiting
                                   | Done (w, rep, ws) \<Rightarrow>
                                       (let c5 = c4\<lparr>ch_rep := rep, ch_writes := ws\<rparr>
                                        in if w \<noteq> OK then Exited 1 c5 else Running c5))))
             | _ \<Rightarrow> Crashed)))"

definition shadow_auth_run :: "shadow_env \<Rightarrow> child_t \<Rightarrow> child_t run" where
  "shadow_auth_run V c =
     (if sb_buf (ch_hash c) = None then Crashed
      else rounds (shadow_step V) (Suc (length (ch_reads c))) c)"

section \<open>Root does not come back\<close>

definition rootless :: "creds \<Rightarrow> bool" where
  "rootless c \<longleftrightarrow> 0 \<notin> {ruid c, euid c, suid c, rgid c, sgid c, egid c}"

lemma setuid_rootless: "rootless c \<Longrightarrow> rootless (snd (setuid u c))"
  by (auto simp: rootless_def setuid_def)

lemma setgid_rootless: "rootless c \<Longrightarrow> rootless (snd (setgid g c))"
  by (auto simp: rootless_def setgid_def)

lemma drop_root_rootless:
  assumes "drop_root c = (True, c')"
  shows "rootless c'" "ruid c' = ruid c" "rgid c' = rgid c" "euid c' = ruid c" "egid c' = rgid c"
  using assms
  by (auto simp: drop_root_def setuid_def setgid_def rootless_def Let_def split: if_splits)

lemma drop_root_setuid_root:
  "euid c = 0 \<Longrightarrow> ruid c \<noteq> 0 \<Longrightarrow> rgid c \<noteq> 0 \<Longrightarrow> fst (drop_root c)"
  by (simp add: drop_root_def setuid_def setgid_def)

section \<open>The contract of a checker\<close>

definition shadow_ok :: "shadow_env \<Rightarrow> byte list \<Rightarrow> child_t \<Rightarrow> bool" where
  "shadow_ok V h c \<longleftrightarrow> mem_env_ok (sv_mem V) \<and> sbuf_static_ok (sv_mem V) (ch_static c) \<and> ch_hash c = hash_buffer h"

text \<open>A text is good if it has the hash of the account.\<close>

definition shadow_good :: "shadow_env \<Rightarrow> byte list \<Rightarrow> byte list \<Rightarrow> bool" where
  "shadow_good V h t \<longleftrightarrow> (\<exists>k x. sv_crypt V k (cstr t) (cstr h) = Some x \<and> cstr x = cstr h)"

lemma hash_buffer_clear: "\<exists>h'. sbuf_clear (hash_buffer h) = Done h'"
  by (simp add: sbuf_clear_def hash_buffer_def strlen_def memset_zero_def)

text \<open>The ways a round can go.\<close>

lemma shadow_step_cases:
  assumes "shadow_ok V h c"
  obtains "shadow_step V c = Waiting"
    | c' e where "shadow_step V c = Exited e c'" "ch_log c' = ch_log c" "ch_rep c' = ch_rep c"
    | pw st p rs x st' w rep ws c' where
        "auth_read_request (sv_mem V) (ch_static c) (ch_reads c) (ch_req c) (ch_pw c) = Done (OK, pw, st, p, rs)"
        "sv_crypt V (ch_calls c) (cstr (sbuf_text pw)) (cstr h) = Some x"
        "sbuf_static_ok (sv_mem V) st'"
        "auth_write_reply (ch_writes c) (ch_rep c) (cstr x = cstr h) = Done (w, rep, ws)"
        "c' = c\<lparr>ch_req := p, ch_reads := rs, ch_calls := ch_calls c + 1,
           ch_log := ch_log c @ [(sbuf_text pw, cstr x = cstr h)], ch_pw := sbuf_zero, ch_static := st',
           ch_rep := rep, ch_writes := ws\<rparr>"
        "shadow_step V c = (if w \<noteq> OK then Exited 1 c' else Running c')"
proof (cases "auth_read_request (sv_mem V) (ch_static c) (ch_reads c) (ch_req c) (ch_pw c)")
  case Fault
  then show ?thesis using auth_read_request_safe assms by (simp add: shadow_ok_def)
next
  case Blocked
  then show ?thesis using that(1) by (simp add: shadow_step_def)
next
  case (Done y)
  obtain res pw st p rs where y: "y = (res, pw, st, p, rs)" by (cases y)
  have E: "mem_env_ok (sv_mem V)" "sbuf_static_ok (sv_mem V) (ch_static c)" using assms by (simp_all add: shadow_ok_def)
  have h: "ch_hash c = hash_buffer h" using assms by (simp add: shadow_ok_def)
  obtain h' where h': "sbuf_clear (hash_buffer h) = Done h'" using hash_buffer_clear by blast
  let ?c1 = "c\<lparr>ch_pw := pw, ch_static := st, ch_req := p, ch_reads := rs\<rparr>"
  show ?thesis
  proof (cases "res = OK")
    case False
    then have "shadow_step V c = (if res = ERR_AUTH_EOF then Exited 0 (?c1\<lparr>ch_hash := h'\<rparr>) else Exited 1 ?c1)"
      using Done y h h' by (simp add: shadow_step_def Let_def)
    then show ?thesis using that(2) by (cases "res = ERR_AUTH_EOF") fastforce+
  next
    case True
    note ok = auth_read_request_OK [OF E Done [unfolded y True]]
    obtain st' where d: "sbuf_destroy (sv_mem V) st pw = Done (sbuf_zero, replicate (sb_cap pw) 0, st')"
      "sbuf_static_ok (sv_mem V) st'" using sbuf_destroy_wf [OF E(1), of st pw] ok by auto
    obtain a key where b: "sb_buf pw = Some (a, key)" using ok by auto
    then have key: "cstr key = cstr (sbuf_text pw)" using ok sbuf_wf_cstr by blast
    have hb: "sb_buf (ch_hash c) = Some (0, cstr h @ [0])" "cstr (cstr h @ [0]) = cstr h"
      using h by (simp_all add: hash_buffer_def)
    let ?r = "sv_crypt V (ch_calls c) (cstr (sbuf_text pw)) (cstr h)"
    show ?thesis
    proof (cases "unsupported_hash ?r (sb_len (ch_hash c))")
      case bad: True
      then have "\<exists>c'. shadow_step V c = Exited 1 c' \<and> ch_log c' = ch_log c \<and> ch_rep c' = ch_rep c"
        using Done y True d b hb key by (simp add: shadow_step_def Let_def)
      then show ?thesis using that(2) by blast
    next
      case good: False
      then obtain x where x: "?r = Some x" by (auto simp: unsupported_hash_def split: option.splits)
      show ?thesis
      proof (cases "auth_write_reply (ch_writes c) (ch_rep c) (cstr x = cstr h)")
        case Fault
        then show ?thesis by (simp add: auth_write_reply_safe)
      next
        case Blocked
        then show ?thesis using that(1) Done y True d b hb key x good by (simp add: shadow_step_def Let_def)
      next
        case w: (Done z)
        obtain r rep ws where z: "z = (r, rep, ws)" by (cases z)
        let ?c = "c\<lparr>ch_req := p, ch_reads := rs, ch_calls := ch_calls c + 1,
           ch_log := ch_log c @ [(sbuf_text pw, cstr x = cstr h)], ch_pw := sbuf_zero, ch_static := st',
           ch_rep := rep, ch_writes := ws\<rparr>"
        have "shadow_step V c = (if r \<noteq> OK then Exited 1 ?c else Running ?c)"
          using Done y True d b hb key x good w z by (simp add: shadow_step_def Let_def)
        then show ?thesis using that(3) [OF Done [unfolded y True] x d(2) w [unfolded z] refl] by blast
      qed
    qed
  qed
qed

interpretation shadow: checker "shadow_step V" "shadow_ok V h" "shadow_good V h" for V h
proof unfold_locales
  fix c c' :: child_t and e :: int
  assume ok: "shadow_ok V h c"
  show "shadow_step V c \<noteq> Crashed"
    using ok by (rule shadow_step_cases) auto
  have "length (ch_reads c') < length (ch_reads c) \<and> shadow_ok V h c' \<and> served c c' \<and>
      (honest (shadow_good V h) c \<longrightarrow> honest (shadow_good V h) c')" if "shadow_step V c = Running c'"
    by (rule shadow_step_cases [OF ok]) (use that ok in \<open>auto simp: shadow_ok_def honest_def shadow_good_def
        split: if_splits dest: auth_read_request_consumes intro!: reply_served\<close>)
  then show "shadow_step V c = Running c' \<Longrightarrow> length (ch_reads c') < length (ch_reads c)"
    "shadow_step V c = Running c' \<Longrightarrow> shadow_ok V h c'" "shadow_step V c = Running c' \<Longrightarrow> served c c'"
    "shadow_step V c = Running c' \<Longrightarrow> honest (shadow_good V h) c \<Longrightarrow> honest (shadow_good V h) c'" by blast+
  have "served c c' \<and> (honest (shadow_good V h) c \<longrightarrow> honest (shadow_good V h) c')" if "shadow_step V c = Exited e c'"
    by (rule shadow_step_cases [OF ok]) (use that in \<open>auto simp: honest_def shadow_good_def split: if_splits
        intro: reply_served served_same\<close>)
  then show "shadow_step V c = Exited e c' \<Longrightarrow> served c c'"
    "shadow_step V c = Exited e c' \<Longrightarrow> honest (shadow_good V h) c \<Longrightarrow> honest (shadow_good V h) c'" by blast+
  show "shadow_ok V h (c\<lparr>ch_req := p, ch_rep := q\<rparr>)" for p q using ok by (simp add: shadow_ok_def)
qed

section \<open>A round on a well-formed request\<close>

lemma shadow_verified_text:
  assumes c: "shadow_ok V h c" and req: "p_data (ch_req c) = request_frame text" and len: "length text + 1 < 2 ^ 64"
    and r: "read_sched_ok (length (request_frame text)) (ch_reads c)"
    and alloc: "sbuf_create (sv_mem V) (ch_static c) (ch_pw c) (length text + 1) = Done (OK, fresh, st1)"
    and x: "sv_crypt V (ch_calls c) (cstr (text @ [0])) (cstr h) = Some x" "\<not> unsupported_hash (Some x) (strlen h)"
    and w: "write_sched_ok 1 (ch_writes c)"
  shows "\<exists>c'. shadow_step V c = Running c' \<and> ch_log c' = ch_log c @ [(text, cstr x = cstr h)] \<and> p_data (ch_req c') = [] \<and>
    p_data (ch_rep c') = p_data (ch_rep c) @ [verdict_byte (cstr x = cstr h)]"
proof -
  have E: "mem_env_ok (sv_mem V)" "sbuf_static_ok (sv_mem V) (ch_static c)" and h: "ch_hash c = hash_buffer h"
    using c by (simp_all add: shadow_ok_def)
  have req': "p_data (ch_req c) = request_frame text @ []" using req by simp
  obtain pw st p rs where a: "auth_read_request (sv_mem V) (ch_static c) (ch_reads c) (ch_req c) (ch_pw c) = Done (OK, pw, st, p, rs)"
    using auth_read_request_delivers [OF E req' len alloc r] by blast
  obtain b where b: "sbuf_text pw = text" "p = (ch_req c)\<lparr>p_data := []\<rparr>" "sb_buf pw = Some (b, text @ [0])"
    using auth_read_request_result [OF E a req' len] by auto
  obtain st' where f: "sbuf_destroy (sv_mem V) st pw = Done (sbuf_zero, replicate (sb_cap pw) 0, st')"
    using sbuf_destroy_wf [OF E(1), of st pw] auth_read_request_OK [OF E a] by auto
  obtain ws where ws: "auth_write_reply (ch_writes c) (ch_rep c) (cstr x = cstr h) =
      Done (OK, (ch_rep c)\<lparr>p_data := p_data (ch_rep c) @ [if cstr x = cstr h then 1 else 0]\<rparr>, ws)"
    using auth_write_reply_delivers [OF w] by blast
  have hb: "sb_buf (ch_hash c) = Some (0, cstr h @ [0])" "sb_len (ch_hash c) = strlen h" by (simp_all add: h hash_buffer_def)
  show ?thesis using a b f ws x hb by (simp add: shadow_step_def verdict_byte_def Let_def)
qed

section \<open>Properties\<close>

text \<open>Any further calls.\<close>

datatype id_call = SetUid nat | SetGid nat

fun id_calls :: "id_call list \<Rightarrow> creds \<Rightarrow> creds" where
  "id_calls [] c = c"
| "id_calls (SetUid u # cs) c = id_calls cs (snd (setuid u c))"
| "id_calls (SetGid g # cs) c = id_calls cs (snd (setgid g c))"

lemma id_calls_rootless: "rootless c \<Longrightarrow> rootless (id_calls cs c)"
  by (induction cs c rule: id_calls.induct) (auto intro: setuid_rootless setgid_rootless)

lemma shadow_auth_init_drops:
  "shadow_auth_init V spawn c = Done (InitDone sp hash, c') \<Longrightarrow> drop_root c = (True, c')"
  by (auto simp: shadow_auth_init_def Let_def comp_simps
      split: option.splits prod.splits if_splits spawn_ret.splits)

text \<open>
  C15: when the start of the shadow backend returns, in whatever identity the program was started,
  the process acts as the user who started it, none of its six identities is root, and no
  sequence of calls brings root back.
\<close>

theorem shadow_drops_root:
  assumes "shadow_auth_init V spawn c = Done (InitDone sp hash, c')"
  shows "euid c' = ruid c \<and> egid c' = rgid c \<and>
    0 \<notin> {ruid c', euid c', suid c', rgid c', sgid c', egid c'} \<and>
    euid (id_calls cs c') \<noteq> 0 \<and> egid (id_calls cs c') \<noteq> 0"
  using drop_root_rootless [OF shadow_auth_init_drops [OF assms]] id_calls_rootless [of c' cs]
  by (auto simp: rootless_def)

definition demo_shadow :: shadow_env where
  "demo_shadow = \<lparr>sv_mem = demo_mem, sv_passwd = Some (''joe'', [120]), sv_spnam = (\<lambda>_. Some [36, 104]),
     sv_crypt = (\<lambda>k key salt. Some (36 # take 1 key))\<rparr>"

theorem shadow_drops_root_witness:
  "let spawn = auth_spawn_child True True FORK_PARENT;
       c = \<lparr>ruid = 1000, euid = 0, suid = 0, rgid = 100, egid = 100, sgid = 100\<rparr>
   in \<exists>hash c'. shadow_auth_init demo_shadow spawn c = Done (InitDone spawn hash, c') \<and>
        euid (id_calls [SetUid 0, SetGid 0, SetUid 0] c') \<noteq> 0"
proof -
  let ?c' = "\<lparr>ruid = 1000, euid = 1000, suid = 1000, rgid = 100, egid = 100, sgid = 100\<rparr>"
  have r: "shadow_auth_init demo_shadow (auth_spawn_child True True FORK_PARENT)
      \<lparr>ruid = 1000, euid = 0, suid = 0, rgid = 100, egid = 100, sgid = 100\<rparr> =
      Done (InitDone (auth_spawn_child True True FORK_PARENT) \<lparr>sb_buf = None, sb_cap = 2, sb_len = 0\<rparr>, ?c')"
    by (simp add: shadow_auth_init_def demo_shadow_def drop_root_def setuid_def setgid_def auth_spawn_child_def
        hash_buffer_def sbuf_clear_def memset_zero_def cstr_def strlen_def)
  show ?thesis using shadow_drops_root [OF r, of "[SetUid 0, SetGid 0, SetUid 0]"] r by (auto simp: Let_def)
qed

text \<open>
  C18: when the lock screen is gone and no request is left, the checker wipes the hash of the
  account and ends with success.
\<close>

theorem shadow_ends_with_parent:
  assumes "ch_hash c = hash_buffer h" "p_data (ch_req c) = []" "\<not> p_open (ch_req c)"
    and "ch_reads c = replicate n RIntr @ RChunk k # rs"
  shows "\<exists>c'. shadow_auth_run V c = Exited 0 c' \<and> ch_rep c' = ch_rep c \<and>
    sb_buf (ch_hash c') = Some (0, replicate (Suc (strlen h)) 0)"
proof -
  have "auth_read_request (sv_mem V) (ch_static c) (ch_reads c) (ch_req c) (ch_pw c) =
      Done (ERR_AUTH_EOF, ch_pw c, ch_static c, ch_req c, rs)"
    unfolding assms(4) using assms(2,3) by (rule auth_read_request_eof)
  then show ?thesis using assms(1)
    by (simp add: shadow_auth_run_def shadow_step_def hash_buffer_def sbuf_clear_def memset_zero_def strlen_def
        replicate_append_same)
qed

theorem shadow_ends_with_parent_witness:
  "\<exists>c'. shadow_auth_run demo_shadow (child_start sbuf_static_init (hash_buffer [36, 104])
      \<lparr>p_data = [], p_open = False\<rparr> \<lparr>p_data = [], p_open = True\<rparr> [RChunk 7] []) = Exited 0 c' \<and>
    sb_buf (ch_hash c') = Some (0, [0, 0, 0])"
  using shadow_ends_with_parent [of "child_start sbuf_static_init (hash_buffer [36, 104])
      \<lparr>p_data = [], p_open = False\<rparr> \<lparr>p_data = [], p_open = True\<rparr> [RChunk 7] []" "[36, 104]" 0 7 "[]" demo_shadow]
  by (auto simp: child_start_def strlen_def cstr_def)

end
