(* ===== verification/Lock_System.thy ===== *)
theory Lock_System
  imports Lock_Safety Auth_Pam Auth_Shadow
begin

text \<open>
  The lock screen and its checker side by side. A step is one round of the main loop or one round
  of the checker; the pipes are shared, so each step hands the contents of both to the other
  process. \<open>sy_forced\<close> is not in the program: it records that the descriptor of the signal was
  reported. Everything the two checkers have in common is proved once, from the contract
  \<open>checker\<close>.
\<close>

section \<open>States and steps\<close>

record sys =
  sy_lock :: dewlock_state
  sy_child :: child_t
  sy_alive :: bool
  sy_forced :: bool

definition child_sees :: "dewlock_state \<Rightarrow> child_t \<Rightarrow> child_t" where
  "child_sees s c = c\<lparr>ch_req := (ch_req c)\<lparr>p_data := p_data (req_pipe s)\<rparr>,
                      ch_rep := (ch_rep c)\<lparr>p_data := p_data (rep_pipe s)\<rparr>\<rparr>"

definition lock_sees :: "child_t \<Rightarrow> dewlock_state \<Rightarrow> dewlock_state" where
  "lock_sees c s = s\<lparr>req_pipe := (req_pipe s)\<lparr>p_data := p_data (ch_req c)\<rparr>,
                     rep_pipe := (rep_pipe s)\<lparr>p_data := p_data (ch_rep c)\<rparr>\<rparr>"

text \<open>The end of the checker closes the reply pipe.\<close>

definition hangup :: "dewlock_state \<Rightarrow> dewlock_state" where
  "hangup s = s\<lparr>rep_pipe := (rep_pipe s)\<lparr>p_open := False\<rparr>\<rparr>"

definition signalled :: "tick \<Rightarrow> bool" where
  "signalled tk \<longleftrightarrow> (\<exists>ms. pr_revents (tk_poll tk ms) 2 \<noteq> 0)"

inductive sys_step :: "env \<Rightarrow> (child_t \<Rightarrow> child_t run) \<Rightarrow> sys \<Rightarrow> sys \<Rightarrow> bool"
  for E step where
  round: "run_display (sy_lock y) \<Longrightarrow> main_iter E tk OK (sy_lock y) = (OK, False, Running s') \<Longrightarrow>
     sys_step E step y (y\<lparr>sy_lock := s', sy_child := child_sees s' (sy_child y),
                          sy_forced := (sy_forced y \<or> signalled tk)\<rparr>)"
| check: "sy_alive y \<Longrightarrow> step (sy_child y) = Running c' \<Longrightarrow>
     sys_step E step y (y\<lparr>sy_lock := lock_sees c' (sy_lock y), sy_child := c'\<rparr>)"
| finish: "sy_alive y \<Longrightarrow> step (sy_child y) = Exited e c' \<Longrightarrow>
     sys_step E step y (y\<lparr>sy_lock := hangup (lock_sees c' (sy_lock y)), sy_child := c', sy_alive := False\<rparr>)"

inductive sys_reach :: "env \<Rightarrow> (child_t \<Rightarrow> child_t run) \<Rightarrow> sys \<Rightarrow> sys \<Rightarrow> bool"
  for E step y0 where
  start: "sys_reach E step y0 y0"
| onward: "sys_reach E step y0 y \<Longrightarrow> sys_step E step y y' \<Longrightarrow> sys_reach E step y0 y'"

text \<open>Both processes when the main loop is entered.\<close>

definition sys_start :: "dewlock_state \<Rightarrow> child_t \<Rightarrow> sys" where
  "sys_start s c = \<lparr>sy_lock = s, sy_child = child_sees s c, sy_alive = True, sy_forced = False\<rparr>"

section \<open>The invariant\<close>

definition sys_inv :: "env \<Rightarrow> int \<Rightarrow> int \<Rightarrow> (child_t \<Rightarrow> bool) \<Rightarrow> (byte list \<Rightarrow> bool) \<Rightarrow> sys \<Rightarrow> bool" where
  "sys_inv E M N ok good y \<longleftrightarrow> ready E M N (sy_lock y) \<and> (sy_alive y \<longrightarrow> ok (sy_child y)) \<and> honest good (sy_child y) \<and>
     p_data (rep_pipe (sy_lock y)) = p_data (ch_rep (sy_child y)) \<and>
     (sy_forced y \<or> accepted (sy_child y) \<or> calm (sy_lock y))"

lemma lock_sees_inv: "ready E M N (lock_sees c s) = ready E M N s" "ready E M N (hangup s) = ready E M N s"
  by (simp_all add: ready_def lock_sees_def hangup_def inv_simps)

lemma lock_sees_calm: "calm s \<Longrightarrow> \<forall>x\<in>set (p_data (ch_rep c)). x = 0 \<Longrightarrow> calm (lock_sees c s)"
  by (simp add: calm_def lock_sees_def Let_def)

lemma hangup_calm: "calm (hangup s) = calm s"
  by (simp add: calm_def hangup_def Let_def)

lemma seen [simp]: "accepted (child_sees s c) = accepted c" "honest good (child_sees s c) = honest good c"
  "p_data (ch_rep (child_sees s c)) = p_data (rep_pipe s)" "p_data (rep_pipe (lock_sees c s)) = p_data (ch_rep c)"
  "p_data (rep_pipe (hangup s)) = p_data (rep_pipe s)"
  by (simp_all add: child_sees_def lock_sees_def hangup_def accepted_def honest_def)

lemma main_iter_poll:
  "main_iter E tk OK s = (OK, False, m) \<Longrightarrow>
     m = snd (loop_poll (ev_loop E) (tk_poll tk) eventloop set_eventloop (run_fd E) (run_timer E) s)"
  by (auto simp: main_iter_def split: if_splits prod.splits)

lemma round_ready:
  assumes "main_iter E tk OK s = (OK, False, Running s')" "ready E M N s"
  shows "ready E M N s'"
proof -
  have "inv E M N {} s \<and> session_lock s = LockRequested" using assms(2) by (simp add: ready_def)
  from dewlock.loop_poll_inv [OF this TrueI, of "ev_loop E" "tk_poll tk"] show ?thesis
    unfolding main_iter_poll [OF assms(1), symmetric] by (simp add: ready_def)
qed

lemma round_calm:
  assumes "main_iter E tk OK s = (OK, False, Running s')" "ready E M N s" "calm s" "\<not> signalled tk"
  shows "calm s'"
proof -
  have c: "calm_ok E M N LockRequested s" using assms(2,3) by (simp add: ready_def calm_ok_def)
  have r: "pr_revents (tk_poll tk ms) 2 = 0" for ms using assms(4) by (simp add: signalled_def)
  show ?thesis using calm_dewlock.loop_poll_inv [of E M N LockRequested, OF c r, of "ev_loop E" "\<lambda>ms. ms"]
    unfolding main_iter_poll [OF assms(1), symmetric] by (simp add: calm_ok_def)
qed

context checker
begin

lemma sys_step_inv:
  assumes "sys_step E step y y'" "sys_inv E M N ok good y"
  shows "sys_inv E M N ok good y'"
  using assms
proof (induction rule: sys_step.induct)
  case (round y tk s')
  have "ready E M N s'" using round_ready [OF round(2)] round.prems by (simp add: sys_inv_def)
  moreover have "calm s'" if "calm (sy_lock y)" "\<not> signalled tk"
    using round_calm [OF round(2) _ that, of M N] round.prems by (simp add: sys_inv_def)
  moreover have "ok (child_sees s' (sy_child y))" if "ok (sy_child y)"
    unfolding child_sees_def using ok_pipes [OF that] .
  ultimately show ?case using round.prems by (auto simp: sys_inv_def)
next
  case (check y c')
  then have o: "ok (sy_child y)" by (simp add: sys_inv_def)
  note s = running_served [OF o check(2)]
  have "accepted c' \<or> calm (lock_sees c' (sy_lock y))" if "accepted (sy_child y) \<or> calm (sy_lock y)"
    using that served_honest [OF s] check.prems lock_sees_calm
    by (metis calm_def sys_inv_def)
  then show ?case using check.prems keeps_ok [OF o check(2)] running_honest [OF o check(2)]
    by (auto simp: sys_inv_def lock_sees_inv)
next
  case (finish y e c')
  then have o: "ok (sy_child y)" by (simp add: sys_inv_def)
  note s = exited_served [OF o finish(2)]
  have "accepted c' \<or> calm (hangup (lock_sees c' (sy_lock y)))" if "accepted (sy_child y) \<or> calm (sy_lock y)"
    using that served_honest [OF s] finish.prems lock_sees_calm hangup_calm
    by (metis calm_def sys_inv_def)
  then show ?case using finish.prems exited_honest [OF o finish(2)]
    by (auto simp: sys_inv_def lock_sees_inv)
qed

lemma sys_reach_inv:
  assumes "sys_reach E step y0 y" "sys_inv E M N ok good y0"
  shows "sys_inv E M N ok good y"
  using assms by (induction rule: sys_reach.induct) (auto intro: sys_step_inv)

lemma sys_start_inv:
  assumes "calm_ok E M N LockRequested s" "ok c" "ch_log c = []"
  shows "sys_inv E M N ok good (sys_start s c)"
  using assms ok_pipes [of c]
  by (simp add: sys_inv_def sys_start_def calm_ok_def ready_def child_sees_def honest_def)

lemma unlock_authorised:
  assumes "sys_reach E step (sys_start s c) y" "calm_ok E M N LockRequested s" "ok c" "ch_log c = []"
    and "\<not> run_display (sy_lock y)"
  shows "sy_forced y \<or> (\<exists>t. (t, True) \<in> set (ch_log (sy_child y)) \<and> good t)"
proof -
  have "sys_inv E M N ok good y" using sys_reach_inv [OF assms(1) sys_start_inv [OF assms(2-4)]] .
  then show ?thesis using assms(5) by (auto simp: sys_inv_def calm_def accepted_def honest_def)
qed

lemma reach_ready:
  assumes "sys_reach E step (sys_start s c) y" "calm_ok E M N LockRequested s" "ok c" "ch_log c = []"
  shows "ready E M N (sy_lock y)"
  using sys_reach_inv [OF assms(1) sys_start_inv [OF assms(2-4)]] by (simp add: sys_inv_def)

end

end
