(* ===== verification/Exchange.thy ===== *)
theory Exchange
  imports Handlers Auth_Pam
begin

text \<open>
  One verification from the keyboard to the verdict: what \<open>submit_password\<close> sends, what the
  checker makes of it, and what the state of the lock screen is meanwhile.
\<close>

section \<open>Sending\<close>

lemma submit_password_sends:
  assumes I: "inv E M N X s" and A: "auth_state s \<noteq> AUTH_STATE_VALIDATING"
    and pw: "pw_repr 1024 (password s) cps" and w: "write_sched_ok (length (request_frame (utf8_text cps))) (writes s)"
  shows "\<exists>s1. submit_password E s = Running s1 \<and> inv E M N X s1 \<and> sbuf_zeroed (password s1) \<and>
    auth_state s1 = AUTH_STATE_VALIDATING \<and> clear_password_timer s1 = None \<and>
    auth_idle_timer s1 = auth_idle_timer s \<and> rep_pipe s1 = rep_pipe s \<and>
    req_pipe s1 = (req_pipe s)\<lparr>p_data := p_data (req_pipe s) @ request_frame (utf8_text cps)\<rparr> \<and>
    eventloop s1 = timer_cancel loop_remove_timer (eventloop s) (clear_password_timer s) \<and>
    run_display s1 = run_display s \<and> session_lock s1 = session_lock s \<and> inbox s1 = inbox s \<and> reads s1 = reads s"
proof -
  have wf: "sbuf_wf (password s)" "sbuf_text (password s) = utf8_text cps" using pw by (simp_all add: pw_repr_def)
  let ?s1 = "s\<lparr>input_state := INPUT_STATE_PRISTINE, auth_state := AUTH_STATE_VALIDATING\<rparr>"
  have T: "timers_inv E X ?s1" using I by (simp add: inv_simps)
  define s2 where "s2 = cancel_input_idle (cancel_password_clear ?s1)"
  have s2: "s2 = cancel_password_clear ?s1"
    using timers_inv_idle [OF cancel_password_clear_inv(1) [OF T]] by (simp add: s2_def cancel_input_idle_noop)
  obtain pw' ws where a: "auth_write_request (writes s) (req_pipe s) (password s) =
      Done (OK, pw', (req_pipe s)\<lparr>p_data := p_data (req_pipe s) @ request_frame (utf8_text cps)\<rparr>, ws)"
    using auth_write_request_delivers [OF wf(1)] w wf(2) by metis
  have z: "sbuf_zeroed pw'" using auth_write_request_result [OF a wf(1)] by simp
  let ?s3 = "s2\<lparr>password := pw', req_pipe := (req_pipe s)\<lparr>p_data := p_data (req_pipe s) @ request_frame (utf8_text cps)\<rparr>,
     writes := ws\<rparr>"
  have P: "password s2 = password s" "writes s2 = writes s" "req_pipe s2 = req_pipe s"
    by (simp_all add: s2 cancel_password_clear_def)
  have sub: "submit_password E s = damage_state E ?s3"
    using A a P unfolding submit_password_def by (simp add: Let_def flip: s2_def)
  have k: "keeps E M N X s (submit_password E s)" using I by (rule submit_password_keeps)
  have "display_ok E ?s3"
    using inv_display_ok [OF I] by (simp add: display_ok_def view_ok_def s2 cancel_password_clear_def)
  then obtain t where t: "damage_state E ?s3 = Running t" using damage_state_ok by blast
  define u d where "u = surfaces t" and "d = disp t"
  have f: "t = ?s3\<lparr>surfaces := u, disp := d\<rparr>" unfolding u_def d_def using t by (rule damage_state_frame)
  have "inv E M N X t" using k sub t by simp
  moreover have "sbuf_zeroed (password t) \<and> auth_state t = AUTH_STATE_VALIDATING \<and> clear_password_timer t = None \<and>
    auth_idle_timer t = auth_idle_timer s \<and> rep_pipe t = rep_pipe s \<and>
    req_pipe t = (req_pipe s)\<lparr>p_data := p_data (req_pipe s) @ request_frame (utf8_text cps)\<rparr> \<and>
    eventloop t = timer_cancel loop_remove_timer (eventloop s) (clear_password_timer s) \<and>
    run_display t = run_display s \<and> session_lock t = session_lock s \<and> inbox t = inbox s \<and> reads t = reads s"
    using z unfolding f s2 by (simp add: cancel_password_clear_def)
  ultimately show ?thesis using t sub by (intro exI [of _ t]) simp
qed

section \<open>Properties\<close>

lemma verified_text:
  assumes c: "pam_ok P c" and req: "p_data (ch_req c) = request_frame text" and len: "length text + 1 < 2 ^ 64"
    and r: "read_sched_ok (length (request_frame text)) (ch_reads c)"
    and alloc: "sbuf_create (pe_mem P) (ch_static c) (ch_pw c) (length text + 1) = Done (OK, fresh, st1)"
    and d: "run_dialog (pe_authenticate P (ch_calls c)) (Some (text @ [0])) = (status, left, given)"
    and w: "write_sched_ok 1 (ch_writes c)"
  shows "\<exists>c'. pam_step P c = (if status = PAM_SUCCESS then pam_finish P c' else Running c') \<and>
    ch_log c' = ch_log c @ [(text, status = PAM_SUCCESS)] \<and> p_data (ch_req c') = [] \<and>
    p_data (ch_rep c') = p_data (ch_rep c) @ [verdict_byte (status = PAM_SUCCESS)]"
proof -
  have E: "mem_env_ok (pe_mem P)" "sbuf_static_ok (pe_mem P) (ch_static c)" using c by (simp_all add: pam_ok_def)
  have req': "p_data (ch_req c) = request_frame text @ []" using req by simp
  obtain pw st p rs where a: "auth_read_request (pe_mem P) (ch_static c) (ch_reads c) (ch_req c) (ch_pw c) = Done (OK, pw, st, p, rs)"
    using auth_read_request_delivers [OF E req' len alloc r] by blast
  obtain b where b: "sbuf_text pw = text" "p = (ch_req c)\<lparr>p_data := []\<rparr>" "sb_buf pw = Some (b, text @ [0])"
    using auth_read_request_result [OF E a req' len] by auto
  obtain ws where ws: "auth_write_reply (ch_writes c) (ch_rep c) (status = PAM_SUCCESS) =
      Done (OK, (ch_rep c)\<lparr>p_data := p_data (ch_rep c) @ [if status = PAM_SUCCESS then 1 else 0]\<rparr>, ws)"
    using auth_write_reply_delivers [OF w] by blast
  obtain st' where f: "sbuf_destroy (pe_mem P) st pw = Done (sbuf_zero, replicate (sb_cap pw) 0, st')"
    using sbuf_destroy_wf [OF E(1), of st pw] auth_read_request_OK [OF E a] by auto
  let ?c = "c\<lparr>ch_req := p, ch_reads := rs, ch_calls := ch_calls c + 1, ch_status_ok := (status = PAM_SUCCESS),
     ch_log := ch_log c @ [(text, status = PAM_SUCCESS)], ch_pw := sbuf_zero, ch_static := st',
     ch_rep := (ch_rep c)\<lparr>p_data := p_data (ch_rep c) @ [if status = PAM_SUCCESS then 1 else 0]\<rparr>, ch_writes := ws\<rparr>"
  have "pam_step P c = (if status = PAM_SUCCESS then pam_finish P ?c else Running ?c)"
    using a b d ws f by (simp add: pam_step_def Let_def)
  then show ?thesis using b by (intro exI [of _ ?c]) (simp add: verdict_byte_def)
qed


lemma demo_alloc: "sbuf_create demo_mem sbuf_static_init sbuf_zero (Suc (Suc (Suc 0))) =
    Done (OK, \<lparr>sb_buf = Some (8192, [0, 0, 0]), sb_cap = 3, sb_len = 0\<rparr>, \<lparr>mlock_supported = True, page_size = 4096\<rparr>)"
  by code_simp

lemma demo_sched: "write_sched_ok (length (request_frame (utf8_text [104, 105]))) (writes demo_typed)"
  unfolding demo_typed_text(2)
  by (simp add: write_sched_ok_def request_frame_def demo_typed_def demo_lock_def state_zero_def)


text \<open>
  C31: the timer of an earlier rejection is not stopped when a new password is submitted; when it
  fires during the verification, the state goes back to idle although no verdict has come, so keys
  are taken again and another password can be submitted.
\<close>

theorem verification_is_reopened:
  assumes "inv E M N {} s" "auth_state s = AUTH_STATE_INVALID" "auth_idle_timer s = Some a"
    and "pw_repr 1024 (password s) cps" "write_sched_ok (length (request_frame (utf8_text cps))) (writes s)"
  shows "\<exists>s1 s2. submit_password E s = Running s1 \<and> auth_state s1 = AUTH_STATE_VALIDATING \<and>
    (a, SetAuthIdle) \<in> live_timers (eventloop s1) \<and> run_timer E SetAuthIdle s1 = Running s2 \<and>
    auth_state s2 = AUTH_STATE_IDLE \<and> rep_pipe s2 = rep_pipe s"
proof -
  obtain s1 where s1: "submit_password E s = Running s1" "inv E M N {} s1" "auth_state s1 = AUTH_STATE_VALIDATING"
    "auth_idle_timer s1 = auth_idle_timer s" "rep_pipe s1 = rep_pipe s"
    using submit_password_sends [OF assms(1) _ assms(4,5)] assms(2) by auto
  have "slot_ok (live_timers (eventloop s1)) {} SetAuthIdle (timer_slot s1 SetAuthIdle)"
    using invD(3) [OF s1(2)] by (simp add: timers_inv_def)
  then have L: "(a, SetAuthIdle) \<in> live_timers (eventloop s1)"
    using s1(4) assms(3) by (auto simp: slot_ok_def timer_slot_def)
  let ?s = "s1\<lparr>auth_idle_timer := None, auth_state := AUTH_STATE_IDLE\<rparr>"
  have "display_ok E ?s" using inv_display_ok [OF s1(2)] by (simp add: display_ok_def view_ok_def)
  then obtain s2 where s2: "damage_state E ?s = Running s2" using damage_state_ok by blast
  define u d where "u = surfaces s2" and "d = disp s2"
  have f: "s2 = ?s\<lparr>surfaces := u, disp := d\<rparr>" unfolding u_def d_def using s2 by (rule damage_state_frame)
  have "auth_state s2 = AUTH_STATE_IDLE \<and> rep_pipe s2 = rep_pipe s" unfolding f using s1(5) by simp
  then show ?thesis using s1 L s2 by (auto simp: run_timer_def set_auth_idle_def)
qed

theorem verification_is_reopened_witness:
  "\<exists>s1 s2. submit_password still_env demo_typed = Running s1 \<and> auth_state s1 = AUTH_STATE_VALIDATING \<and>
    (3, SetAuthIdle) \<in> live_timers (eventloop s1) \<and> run_timer still_env SetAuthIdle s1 = Running s2 \<and>
    auth_state s2 = AUTH_STATE_IDLE"
  using verification_is_reopened [OF demo_typed_inv _ _ demo_typed_text(1) demo_sched, of 3]
  by (auto simp: demo_typed_def)

end
