(* ===== verification/Unlock.thy ===== *)
theory Unlock
  imports Lock_Safety Exchange
begin

text \<open>
  The way of a correct password through the whole program: from the key that submits it, through
  the pipes and PAM, to the end of the process with the session unlocked.
\<close>

section \<open>Waiting for the verdict\<close>

text \<open>To cancel a timer only marks it: the descriptors stay and no timer becomes due.\<close>

lemma cancel_frame:
  assumes "loop_wf l" "l' = timer_cancel loop_remove_timer l h"
  shows "fds l' = fds l" "fd_events l' = fd_events l" "t_expiry ` set (timers l') = t_expiry ` set (timers l)"
proof -
  have "fds l' = fds l \<and> fd_events l' = fd_events l \<and> t_expiry ` set (timers l') = t_expiry ` set (timers l)"
  proof (cases h)
    case (Some a)
    obtain r k where k: "loop_remove_timer l a = (r, k)" by fastforce
    have "t_expiry \<circ> mark a = (t_expiry :: 'b loop_timer \<Rightarrow> timespec)" for a by (auto simp: mark_def)
    then have "t_expiry ` set (map (mark a) (timers l)) = t_expiry ` set (timers l)" by (simp add: image_comp)
    then show ?thesis using loop_remove_timer_wf [OF assms(1) k] Some k
      by (simp add: assms(2) timer_cancel_def)
  qed (simp add: assms(2) timer_cancel_def)
  then show "fds l' = fds l" "fd_events l' = fd_events l" "t_expiry ` set (timers l') = t_expiry ` set (timers l)" by simp_all
qed

lemma no_timer_due_alt:
  "no_timer_due E s \<longleftrightarrow> (\<forall>e\<in>t_expiry ` set (timers (eventloop s)). \<forall>n. \<not> e < le_clock (ev_loop E) n)"
  by (simp add: no_timer_due_def)

text \<open>After a request was sent the main loop waits as before.\<close>

lemma submit_password_waits:
  assumes R: "ready E M N s" "listening s" "no_timer_due E s" and A: "auth_state s \<noteq> AUTH_STATE_VALIDATING"
    and pw: "pw_repr 1024 (password s) cps" and w: "write_sched_ok (length (request_frame (utf8_text cps))) (writes s)"
    and p: "p_data (req_pipe s) = []"
  shows "\<exists>s1. submit_password E s = Running s1 \<and> ready E M N s1 \<and> listening s1 \<and> no_timer_due E s1 \<and>
    p_data (req_pipe s1) = request_frame (utf8_text cps) \<and> rep_pipe s1 = rep_pipe s \<and> inbox s1 = inbox s \<and> reads s1 = reads s"
proof -
  have I: "inv E M N {} s" "session_lock s = LockRequested" using R(1) by (simp_all add: ready_def)
  have wf: "loop_wf (eventloop s)" using I(1) by (simp add: inv_def timers_inv_def loop_ok_def)
  obtain s1 where s1: "submit_password E s = Running s1" "inv E M N {} s1" "rep_pipe s1 = rep_pipe s"
    "req_pipe s1 = (req_pipe s)\<lparr>p_data := p_data (req_pipe s) @ request_frame (utf8_text cps)\<rparr>"
    "eventloop s1 = timer_cancel loop_remove_timer (eventloop s) (clear_password_timer s)"
    "run_display s1 = run_display s" "session_lock s1 = session_lock s" "inbox s1 = inbox s" "reads s1 = reads s"
    using submit_password_sends [OF I(1) A pw w] by blast
  note f = cancel_frame [OF wf s1(5)]
  have "listening s1" "no_timer_due E s1"
    using R(2,3) f s1(6) by (simp_all add: listening_def no_timer_due_alt)
  then show ?thesis using s1 I(2) p by (auto simp: ready_def)
qed

section \<open>Properties\<close>



end
