(* ===== verification/Spec2Isabelle.thy ===== *)
theory Spec2Isabelle
  imports Lock_System Unlock
begin

text \<open>
  A verification of \<^verbatim>\<open>dewlock\<close>, a screen locker for Wayland. The theories follow the C files of
  \<^verbatim>\<open>src/\<close>; each says at its beginning what it holds.

  \<^bold>\<open>The program.\<close> \<^verbatim>\<open>main.c\<close> starts a second process, the checker (\<^verbatim>\<open>auth-pam.c\<close> or
  \<^verbatim>\<open>auth-shadow.c\<close>), reads the configuration (\<^verbatim>\<open>config.c\<close>, \<^verbatim>\<open>color.h\<close>), allocates the
  password buffer (\<^verbatim>\<open>safebuf.c\<close>), connects to the compositor and asks for a session lock. When
  that is granted it enters the main loop, which waits in \<^verbatim>\<open>loop.c\<close> for three descriptors
  (compositor, reply pipe of the checker, pipe of the \<^verbatim>\<open>SIGUSR1\<close> handler) and for timers.
  Keys (\<^verbatim>\<open>seat.c\<close>) edit the password (\<^verbatim>\<open>password.c\<close>, \<^verbatim>\<open>unicode.c\<close>); return sends it through
  the request pipe (\<^verbatim>\<open>auth.c\<close>) and the checker answers one byte. A success ends the loop and the
  session lock is released. Every change of the state marks the surfaces as dirty, and
  \<^verbatim>\<open>render.c\<close> draws them on the buffers of \<^verbatim>\<open>ctx.c\<close>.

  \<^bold>\<open>How C is read.\<close> (\<open>Prelude\<close>, \<open>Word_Bits\<close>, \<open>Results\<close>) A computation on memory is a
  \<open>comp\<close>: \<open>Done\<close> with a value, \<open>Fault\<close> for an access outside an allocation, a null pointer or
  a failed assertion, \<open>Blocked\<close> for a system call that never returns. A function of the whole
  program is a \<open>run\<close>: \<open>Running\<close> with the new state, \<open>Exited\<close> with a status, \<open>Crashed\<close>, or
  \<open>Waiting\<close> for input that does not come. \<open>rbind\<close> and \<open>cbind\<close> sequence them, and
  \<open>run_all P Q m\<close> says that \<open>m\<close> does not crash, ends with \<open>P\<close> when it runs on and with \<open>Q\<close>
  when it exits. \<open>uint8_t\<close>, \<open>uint32_t\<close> and \<open>int32_t\<close> are words; \<open>size_t\<close> and lengths are
  natural numbers with the bound of 64 bits where it is reached; signed sums that could overflow
  are integers with the check \<open>int_ok\<close>, and an overflow is a fault. Doubles are rationals.

  \<^bold>\<open>Components.\<close>
  \<^item> \<open>Unicode\<close> (\<^verbatim>\<open>unicode.c\<close>): encoding and the length of the last character, as the interpretation
    \<open>utf8\<close> of the contract \<open>character_code\<close>: encodings concatenate and can be taken off again.
  \<^item> \<open>Safebuf\<close> (\<^verbatim>\<open>safebuf.c\<close>), \<open>Password_Text\<close> (\<open>append_ch\<close>, \<open>backspace\<close> of
    \<^verbatim>\<open>password.c\<close>): the buffer refines a list of characters (\<open>pw_repr\<close>); \<open>edit_buffer\<close> is
    the contract of an editable buffer and \<open>pwbuf\<close> its interpretation.
  \<^item> \<open>Auth\<close> (\<^verbatim>\<open>auth.c\<close>): both directions of the protocol over pipes, where a schedule of events
    gives the short transfers, \<^verbatim>\<open>EINTR\<close> and the failures of \<^verbatim>\<open>read\<close> and \<^verbatim>\<open>write\<close>.
  \<^item> \<open>Eventloop\<close> (\<^verbatim>\<open>loop.c\<close>): a callback gets the loop in the state it is called in and may add
    and remove timers while the list is walked. \<open>timer_service\<close> is the contract of the timers
    (interpretation \<open>loop_timers\<close>, used by \<open>Timers\<close>) and \<open>loop_client\<close> is what the program
    owes the loop: then one round of \<open>loop_poll\<close> keeps the program's invariant and does not crash.
  \<^item> \<open>Strings\<close>, \<open>Color\<close>, \<open>Config\<close>, \<open>Background\<close>, \<open>Cli\<close> (\<^verbatim>\<open>config.c\<close>, \<^verbatim>\<open>color.h\<close>,
    \<^verbatim>\<open>strcmp.h\<close>, \<^verbatim>\<open>background.c\<close>, \<^verbatim>\<open>cli.c\<close>, \<^verbatim>\<open>log.c\<close>): what is read at start.
  \<^item> \<open>Ctx\<close>, \<open>Render\<close> (\<^verbatim>\<open>ctx.c\<close>, \<^verbatim>\<open>render.c\<close>): the buffers of a surface with the resources they
    hold, and drawing as the list of operations sent to cairo and to the compositor.
  \<^item> \<open>Dewlock_State\<close> (\<^verbatim>\<open>dewlock.h\<close>, \<^verbatim>\<open>seat.h\<close>): the one record every handler reads and writes,
    with the queue of compositor events and both pipes. On it \<open>Password\<close>, \<open>Clock\<close>, \<open>Seat\<close>,
    \<open>Surfaces\<close> and \<open>Dispatch\<close> define the handlers of \<^verbatim>\<open>password.c\<close>, \<^verbatim>\<open>clock.c\<close>,
    \<^verbatim>\<open>seat.c\<close> and \<^verbatim>\<open>main.c\<close> under their names in the source.
  \<^item> \<open>Dewlock_Main\<close>: \<open>main\<close> itself, from the command line to the exit status, and
    \<open>daemonize\<close>.
  \<^item> \<open>Backend\<close>, \<open>Auth_Pam\<close>, \<open>Auth_Shadow\<close>: one round of each checker, its loop, and the
    identities of the process (\<open>creds\<close>). \<open>checker\<close> is what the lock screen relies on; \<open>pam\<close> and
    \<open>shadow\<close> are its interpretations.

  \<^bold>\<open>What is shown.\<close> \<open>Timers\<close>, \<open>Invariants\<close> and \<open>Handlers\<close>: every handler keeps
  \<open>inv\<close>, which joins the ownership of timers, the contents of the password buffer, the sizes and
  contexts of the surfaces and the objects of the compositor; so the program meets \<open>loop_client\<close>
  (interpretation \<open>dewlock\<close>). \<open>Lock_Safety\<close>: the whole of \<open>main\<close> never crashes, the session is
  not unlocked without a verdict of success, a signal, or a failure of the connection (a second
  interpretation, \<open>calm_dewlock\<close>), and a success unlocks it. \<open>Exchange\<close>: what is typed is what
  the checker verifies. \<open>Unlock\<close>: the right password, once submitted, ends the program with the
  session unlocked. \<open>Lock_System\<close> and this theory: both processes as a transition relation
  (\<open>sys_step\<close>) whose steps interleave rounds of the main loop with rounds of the checker, and
  the main results on the states it reaches.

  \<^bold>\<open>Bounds.\<close> Loops of the code that are not structural carry a bound as an argument:
  the walks over the descriptors and over the timers are given one step more than there are entries; \<open>wait_locked\<close> uses one batch of events in each round, so one more than the batches
  is enough (\<open>wait_locked_enough\<close>); a checker uses at least one event of its schedule in each
  round (\<open>rounds_enough\<close>). \<open>main_loop\<close> recurses over the list of what arrives in each round and
  is \<open>Waiting\<close> at its end. \<open>M\<close> and \<open>N\<close> bound the sides and the scales of the outputs;
  \<open>M * N \<le> 15000\<close> keeps the sizes of all buffers in 32 bits (\<open>ctx_size_wraps\<close> shows what
  happens beyond).

  \<^bold>\<open>Parameters.\<close> The libraries are arguments: what the compositor sends is the queue
  \<open>inbox\<close>; text extents, xkbcommon, \<^verbatim>\<open>wordexp\<close>, the PNG decoder, \<^verbatim>\<open>getopt_long\<close>, PAM (a
  dialog that may call the conversation function any number of times and ends with a status),
  \<^verbatim>\<open>crypt\<close>, \<^verbatim>\<open>getspnam\<close>, the clock, allocation and the system calls of start are functions or
  answers in the records of the environment. Hypotheses on them are named predicates
  (\<open>env_ok\<close>, \<open>main_env_ok\<close>, \<open>pam_ok\<close>, \<open>shadow_ok\<close>, \<open>tick_ok\<close>, \<open>inbox_ok\<close>) and
  hold for the examples of the witnesses.

  \<^bold>\<open>Not modelled.\<close> Log messages; the pixels that cairo draws; the rounding of doubles (and where
  cairo reports an advance of the asterisk that is not positive, the conversion of the quotient, which
  C leaves undefined, counts as 0); the pause of
  two seconds of the shadow checker; \<^verbatim>\<open>SIGPIPE\<close>; the signal handler, which only writes one byte
  to the pipe that \<open>poll\<close> reports. An allocation of the event loop that fails is reported as a crash
  at once, not at the first use of the null pointer. Build files, packaging and the
  description of the lock protocol have no behaviour of their own.
\<close>

section \<open>The lock screen with its checker\<close>

text \<open>
  C1: with the PAM backend the lock screen stops only when PAM has accepted a request or
  \<^verbatim>\<open>SIGUSR1\<close> was received: in every state the two processes reach, in any interleaving of
  their rounds and with any events, keys, timers and schedules of the pipe, if the main loop has
  been told to stop then some verified text made \<^verbatim>\<open>pam_authenticate\<close> return success, or the
  descriptor of the signal was reported. The connection to the compositor is taken to work: its
  failure also stops the loop.
\<close>

theorem pam_unlock_is_authorised:
  assumes "sys_reach E (pam_step P) (sys_start s c) y" "calm_ok E M N LockRequested s" "pam_ok P c" "ch_log c = []"
    and "\<not> run_display (sy_lock y)"
  shows "sy_forced y \<or> (\<exists>t k b. (t, True) \<in> set (ch_log (sy_child y)) \<and> cstr b = cstr t \<and>
    fst (run_dialog (pe_authenticate P k) (Some b)) = PAM_SUCCESS)"
  using pam.unlock_authorised [OF assms] by (auto simp: pam_good_def)

definition demo_sent :: dewlock_state where
  "demo_sent = demo_lock\<lparr>req_pipe := \<lparr>p_data = request_frame [104, 105], p_open = True\<rparr>\<rparr>"

definition demo_checker :: child_t where
  "demo_checker = demo_child sbuf_zero [] True (replicate 11 (RChunk 0))"

lemma demo_sent_ok: "calm_ok still_env 1920 2 LockRequested demo_sent"
  using demo_lock_ready(5) by (simp add: calm_ok_def demo_sent_def calm_def inv_simps)

lemma demo_checker_ok: "pam_ok demo_pam demo_checker" "ch_log demo_checker = []"
  using demo_pam_ok by (simp_all add: demo_checker_def demo_child_def child_start_def)

text \<open>When a success has arrived at the example, the next round of the main loop reads it.\<close>

lemma demo_round:
  assumes "sys_reach still_env step y0 y1" "sy_lock y1 = s1" "\<not> sy_forced y1" "ready still_env 1920 2 s1" "listening s1"
    "no_timer_due still_env s1" "p_data (rep_pipe s1) = 1 # []" "reads s1 = replicate 1 RIntr @ RChunk 0 # []"
  shows "\<exists>y. sys_reach still_env step y0 y \<and> \<not> run_display (sy_lock y) \<and> \<not> sy_forced y"
proof -
  obtain s2 where s2: "main_iter still_env (demo_tick [] POLLIN) OK s1 = (OK, False, Running s2)" "\<not> run_display s2"
    using success_round [OF assms(4-6) demo_tick_ok(2) assms(7) _ assms(8)] by (metis zero_neq_one)
  let ?y2 = "y1\<lparr>sy_lock := s2, sy_child := child_sees s2 (sy_child y1), sy_forced := (sy_forced y1 \<or> signalled (demo_tick [] POLLIN))\<rparr>"
  have "sys_step still_env step y1 ?y2"
    using sys_step.round [of y1 still_env "demo_tick [] POLLIN" s2] s2(1) assms(2,5) by (simp add: listening_def)
  with assms(1) have "sys_reach still_env step y0 ?y2" by (rule sys_reach.onward)
  moreover have "\<not> signalled (demo_tick [] POLLIN)" by (simp add: signalled_def demo_tick_def)
  ultimately show ?thesis using s2(2) assms(3) by (intro exI [of _ ?y2]) simp
qed

lemma demo_sent_seen:
  assumes "p_data (ch_rep c) = [1]" "s1 = lock_sees c demo_sent \<or> s1 = hangup (lock_sees c demo_sent)"
  shows "ready still_env 1920 2 s1" "listening s1" "no_timer_due still_env s1" "p_data (rep_pipe s1) = 1 # []"
    "reads s1 = replicate 1 RIntr @ RChunk 0 # []"
proof -
  have "ready still_env 1920 2 demo_sent" using demo_sent_ok by (simp add: ready_def calm_ok_def)
  then show "ready still_env 1920 2 s1" using assms(2) by (auto simp: lock_sees_inv)
  show "listening s1" "no_timer_due still_env s1" "p_data (rep_pipe s1) = 1 # []"
    "reads s1 = replicate 1 RIntr @ RChunk 0 # []"
    using demo_lock_ready(2,3) assms
    by (auto simp: hangup_def lock_sees_def listening_def no_timer_due_def demo_sent_def)
      (auto simp: demo_lock_def state_zero_def)
qed

text \<open>The checker verifies the request and ends, then the main loop reads the verdict.\<close>

lemma demo_run:
  "\<exists>y. sys_reach still_env (pam_step demo_pam) (sys_start demo_sent demo_checker) y \<and>
     \<not> run_display (sy_lock y) \<and> \<not> sy_forced y"
proof -
  let ?c = "child_sees demo_sent demo_checker"
  let ?y0 = "sys_start demo_sent demo_checker"
  have c: "pam_ok demo_pam ?c" "p_data (ch_req ?c) = request_frame [104, 105]" "p_data (ch_rep ?c) = []" "ch_calls ?c = 0"
    using demo_checker_ok(1)
    by (simp_all add: child_sees_def demo_checker_def demo_child_def child_start_def pam_ok_def demo_sent_def demo_lock_def
        state_zero_def)
  have sched: "read_sched_ok (length (request_frame [104, 105])) (ch_reads ?c)" "write_sched_ok 1 (ch_writes ?c)"
    by (simp_all add: child_sees_def demo_checker_def demo_child_def child_start_def read_sched_ok_def write_sched_ok_def
        request_frame_def)
  have a: "sbuf_create (pe_mem demo_pam) (ch_static ?c) (ch_pw ?c) (length [104, 105 :: byte] + 1) =
    Done (OK, \<lparr>sb_buf = Some (8192, [0, 0, 0]), sb_cap = 3, sb_len = 0\<rparr>, \<lparr>mlock_supported = True, page_size = 4096\<rparr>)"
    using demo_alloc by (simp add: demo_pam_def demo_child_def child_start_def child_sees_def demo_checker_def)
  have d: "run_dialog (pe_authenticate demo_pam (ch_calls ?c)) (Some ([104, 105] @ [0])) = (PAM_SUCCESS, None, [[104, 105]])"
    by (simp add: demo_pam_def demo_dialog_def handle_conversation_def cstr_def)
  have "length [104, 105 :: byte] + 1 < 2 ^ 64" by simp
  from verified_text [OF c(1,2) this sched(1) a d sched(2)]
  obtain c' where c': "pam_step demo_pam ?c = pam_finish demo_pam c'" "p_data (ch_rep c') = [1]"
    using c(3) by (auto simp: verdict_byte_def)
  then obtain e where e: "pam_step demo_pam (sy_child ?y0) = Exited e c'"
    by (auto simp: pam_finish_def sys_start_def demo_pam_def)
  let ?s1 = "hangup (lock_sees c' (sy_lock ?y0))"
  let ?y1 = "?y0\<lparr>sy_lock := ?s1, sy_child := c', sy_alive := False\<rparr>"
  have "sys_step still_env (pam_step demo_pam) ?y0 ?y1"
    by (rule sys_step.finish) (use e in \<open>simp_all add: sys_start_def\<close>)
  with sys_reach.start have 1: "sys_reach still_env (pam_step demo_pam) ?y0 ?y1" by (rule sys_reach.onward)
  have "?s1 = hangup (lock_sees c' demo_sent)" by (simp add: sys_start_def)
  from demo_round [OF 1 _ _ demo_sent_seen [OF c'(2) disjI2 [OF this]]] show ?thesis by (simp add: sys_start_def)
qed

theorem pam_unlock_is_authorised_witness:
  "\<exists>y. sys_reach still_env (pam_step demo_pam) (sys_start demo_sent demo_checker) y \<and> \<not> run_display (sy_lock y) \<and>
     (\<exists>t b. (t, True) \<in> set (ch_log (sy_child y)) \<and> cstr b = cstr t \<and> fst (run_dialog demo_dialog (Some b)) = PAM_SUCCESS)"
proof -
  obtain y where y: "sys_reach still_env (pam_step demo_pam) (sys_start demo_sent demo_checker) y"
    "\<not> run_display (sy_lock y)" "\<not> sy_forced y" using demo_run by blast
  have "pe_authenticate demo_pam k = demo_dialog" for k by (simp add: demo_pam_def)
  then show ?thesis
    using pam_unlock_is_authorised [OF y(1) demo_sent_ok demo_checker_ok y(2)] y by auto
qed

text \<open>
  C5: with the shadow backend the lock screen stops only when a text was verified whose
  \<^verbatim>\<open>crypt\<close> is the hash of the account, or \<^verbatim>\<open>SIGUSR1\<close> was received (or, as above, the
  connection failed).
\<close>

theorem shadow_unlock_is_authorised:
  assumes "sys_reach E (shadow_step V) (sys_start s c) y" "calm_ok E M N LockRequested s" "shadow_ok V h c" "ch_log c = []"
    and "\<not> run_display (sy_lock y)"
  shows "sy_forced y \<or> (\<exists>t k x. (t, True) \<in> set (ch_log (sy_child y)) \<and>
    sv_crypt V k (cstr t) (cstr h) = Some x \<and> cstr x = cstr h)"
  using shadow.unlock_authorised [OF assms] by (auto simp: shadow_good_def)

definition demo_shadow_child :: child_t where
  "demo_shadow_child = child_start sbuf_static_init (hash_buffer [36, 104]) \<lparr>p_data = [], p_open = True\<rparr>
     \<lparr>p_data = [], p_open = True\<rparr> (replicate 11 (RChunk 0)) [WChunk 0]"

lemma demo_shadow_ok: "shadow_ok demo_shadow [36, 104] demo_shadow_child" "ch_log demo_shadow_child = []"
  using demo_mem_ok by (simp_all add: shadow_ok_def demo_shadow_child_def child_start_def demo_shadow_def)

lemma demo_shadow_run:
  "\<exists>y. sys_reach still_env (shadow_step demo_shadow) (sys_start demo_sent demo_shadow_child) y \<and>
     \<not> run_display (sy_lock y) \<and> \<not> sy_forced y"
proof -
  let ?y0 = "sys_start demo_sent demo_shadow_child"
  let ?c = "child_sees demo_sent demo_shadow_child"
  have c: "shadow_ok demo_shadow [36, 104] ?c" "p_data (ch_req ?c) = request_frame [104, 105]" "p_data (ch_rep ?c) = []"
    "read_sched_ok (length (request_frame [104, 105])) (ch_reads ?c)" "write_sched_ok 1 (ch_writes ?c)"
    using demo_shadow_ok(1)
    by (simp_all add: shadow_ok_def child_sees_def demo_shadow_child_def child_start_def demo_sent_def demo_lock_def
        state_zero_def read_sched_ok_def write_sched_ok_def request_frame_def)
  have len: "length [104, 105 :: byte] + 1 < 2 ^ 64" by simp
  have a: "sbuf_create (sv_mem demo_shadow) (ch_static ?c) (ch_pw ?c) (length [104, 105 :: byte] + 1) =
    Done (OK, \<lparr>sb_buf = Some (8192, [0, 0, 0]), sb_cap = 3, sb_len = 0\<rparr>, \<lparr>mlock_supported = True, page_size = 4096\<rparr>)"
    using demo_alloc by (simp add: demo_shadow_def child_start_def child_sees_def demo_shadow_child_def)
  have x: "sv_crypt demo_shadow (ch_calls ?c) (cstr ([104, 105] @ [0])) (cstr [36, 104]) = Some [36, 104]"
    "\<not> unsupported_hash (Some [36, 104]) (strlen [36, 104])"
    by (simp_all add: demo_shadow_def cstr_def unsupported_hash_def strlen_def)
  obtain c' where c': "shadow_step demo_shadow (sy_child ?y0) = Running c'" "p_data (ch_rep c') = [1]"
    using shadow_verified_text [OF c(1,2) len c(4) a x c(5)] c(3) by (auto simp: sys_start_def verdict_byte_def)
  let ?s1 = "lock_sees c' (sy_lock ?y0)"
  let ?y1 = "?y0\<lparr>sy_lock := ?s1, sy_child := c'\<rparr>"
  have "sys_step still_env (shadow_step demo_shadow) ?y0 ?y1"
    by (rule sys_step.check) (use c'(1) in \<open>simp_all add: sys_start_def\<close>)
  with sys_reach.start have 1: "sys_reach still_env (shadow_step demo_shadow) ?y0 ?y1" by (rule sys_reach.onward)
  have "?s1 = lock_sees c' demo_sent" by (simp add: sys_start_def)
  from demo_round [OF 1 _ _ demo_sent_seen [OF c'(2) disjI1 [OF this]]] show ?thesis by (simp add: sys_start_def)
qed

theorem shadow_unlock_is_authorised_witness:
  "\<exists>y. sys_reach still_env (shadow_step demo_shadow) (sys_start demo_sent demo_shadow_child) y \<and>
     \<not> run_display (sy_lock y) \<and> (\<exists>t k x. (t, True) \<in> set (ch_log (sy_child y)) \<and>
     sv_crypt demo_shadow k (cstr t) (cstr [36, 104]) = Some x \<and> cstr x = cstr [36, 104])"
proof -
  obtain y where y: "sys_reach still_env (shadow_step demo_shadow) (sys_start demo_sent demo_shadow_child) y"
    "\<not> run_display (sy_lock y)" "\<not> sy_forced y" using demo_shadow_run by blast
  then show ?thesis using shadow_unlock_is_authorised [OF y(1) demo_sent_ok demo_shadow_ok y(2)] by blast
qed


lemma demo_typed_ok: "calm_ok still_env 1920 2 LockRequested demo_typed"
  using demo_lock_ready(5) demo_typed_inv by (simp add: calm_ok_def demo_typed_def demo_table_def calm_def demo_lock_def)


end
